theory Spec2Isabelle
  imports Main "HOL-Library.Word"
begin

section \<open>The release workflow: expressions, steps and their gates\<close>

text \<open>
  The repository releases firmware through two files: a Makefile whose \<open>build\<close> goal
  compiles the firmware and copies four images into \<open>./firmware\<close>, and a GitHub
  workflow with one job, \<open>build\<close>, whose steps test, build and upload. This part embeds
  the workflow.

  The job runs on pull requests, pushes and manual dispatch; what triggered it enters
  the model through \<open>github.ref\<close> alone, the fully qualified ref of the trigger.

  The two upload steps carry an \<open>if:\<close> expression over \<open>github.ref\<close>. In GitHub's
  expression language \<open>==\<close> on strings ignores case, and \<open>startsWith\<close> is not case
  sensitive either. The fold below is the one of the ASCII letters; every other byte is
  compared as it is.
\<close>

definition to_lower :: "char \<Rightarrow> char" where
  "to_lower c =
     (case map_of (zip ''ABCDEFGHIJKLMNOPQRSTUVWXYZ'' ''abcdefghijklmnopqrstuvwxyz'') c of
        None \<Rightarrow> c
      | Some d \<Rightarrow> d)"

definition fold_case :: "string \<Rightarrow> string" where
  "fold_case s = map to_lower s"

text \<open>\<open>a == b\<close> on two strings.\<close>

definition str_eq :: "string \<Rightarrow> string \<Rightarrow> bool" where
  "str_eq a b \<longleftrightarrow> fold_case a = fold_case b"

text \<open>\<open>startsWith(searchString, searchValue)\<close>.\<close>

definition startsWith :: "string \<Rightarrow> string \<Rightarrow> bool" where
  "startsWith searchString searchValue \<longleftrightarrow>
     take (length searchValue) (fold_case searchString) = fold_case searchValue"

text \<open>
  The \<open>if:\<close> of a step. A step without one runs whenever the steps before it succeeded;
  the two expressions of the workflow call no status function, so the same implicit
  \<open>success()\<close> guards them.
\<close>

datatype condition =
    No_condition
  | Ref_equals string
  | Ref_startsWith string

fun holds :: "condition \<Rightarrow> string \<Rightarrow> bool" where
  "holds No_condition github_ref = True"
| "holds (Ref_equals v) github_ref = str_eq github_ref v"
| "holds (Ref_startsWith v) github_ref = startsWith github_ref v"

text \<open>What a step runs: an action (\<open>uses:\<close>) or the lines of a script (\<open>run:\<close>).\<close>

datatype script_line =
    Git_submodule_update
  | Make_submodules string
  | Make string
  | Rm_rf string
  | Docker_run_make string
  | Python string

datatype action =
    Uses string
  | Run "script_line list"

text \<open>A value of a step's \<open>env:\<close>: written out in the workflow, or taken from the secrets.\<close>

datatype env_value =
    Literal string
  | Secret string

record step =
  step_name :: string
  step_if :: condition
  step_action :: action
  step_with :: "(string \<times> string) list"
  step_env :: "(string \<times> env_value) list"

definition checkout_step :: step where
  "checkout_step =
     \<lparr>step_name = ''Checkout repo'', step_if = No_condition,
      step_action = Uses ''actions/checkout@v3'', step_with = [(''fetch-depth'', ''0'')],
      step_env = []\<rparr>"

definition submodules_step :: step where
  "submodules_step =
     \<lparr>step_name = ''Fetch submodules'', step_if = No_condition,
      step_action = Run [Git_submodule_update,
                         Make_submodules ''vendor/micropython/ports/unix'',
                         Make_submodules ''vendor/micropython/ports/esp32''],
      step_with = [], step_env = []\<rparr>"

definition test_step :: step where
  "test_step =
     \<lparr>step_name = ''Test'', step_if = No_condition,
      step_action = Run [Make ''test''], step_with = [], step_env = []\<rparr>"

definition build_step :: step where
  "build_step =
     \<lparr>step_name = ''Build'', step_if = No_condition,
      step_action = Run [Rm_rf ''./vendor/micropython/mpy-cross/build'',
                         Docker_run_make ''espressif/idf:v5.1.2''],
      step_with = [], step_env = []\<rparr>"

text \<open>The blueprint the workflow's comment calls "Beta V4 Blueprint".\<close>

definition beta_blueprint :: string where
  "beta_blueprint = ''65c3ebd0f4542d968bf23817''"

text \<open>The blueprint the workflow's comment calls "Production V4 Blueprint".\<close>

definition production_blueprint :: string where
  "production_blueprint = ''638a8a406a504ec89e7b18ee''"

definition upload_main_step :: step where
  "upload_main_step =
     \<lparr>step_name = ''Upload to Golioth (Main)'',
      step_if = Ref_equals ''refs/heads/main'',
      step_action = Run [Python ''./tools/upload-to-golioth.py''],
      step_with = [],
      step_env = [(''GOLIOTH_PROJECT'', Literal ''ribbit''),
                  (''GOLIOTH_BLUEPRINT'', Literal beta_blueprint),
                  (''GOLIOTH_API_KEY'', Secret ''GOLIOTH_API_KEY''),
                  (''GOLIOTH_ROLLOUT'', Literal ''true'')]\<rparr>"

definition upload_release_step :: step where
  "upload_release_step =
     \<lparr>step_name = ''Upload to Golioth (Release)'',
      step_if = Ref_startsWith ''refs/tags/v'',
      step_action = Run [Python ''./tools/upload-to-golioth.py''],
      step_with = [],
      step_env = [(''GOLIOTH_PROJECT'', Literal ''ribbit''),
                  (''GOLIOTH_BLUEPRINT'', Literal production_blueprint),
                  (''GOLIOTH_API_KEY'', Secret ''GOLIOTH_API_KEY''),
                  (''GOLIOTH_ROLLOUT'', Literal ''false'')]\<rparr>"

definition artifacts_step :: step where
  "artifacts_step =
     \<lparr>step_name = ''Upload artifacts'', step_if = No_condition,
      step_action = Uses ''actions/upload-artifact@v3'',
      step_with = [(''name'', ''firmware''), (''path'', ''firmware'')], step_env = []\<rparr>"

text \<open>The steps of the job \<open>build\<close>, in the order of the workflow.\<close>

definition steps :: "step list" where
  "steps = [checkout_step, submodules_step, test_step, build_step,
            upload_main_step, upload_release_step, artifacts_step]"

text \<open>A step is an upload to Golioth when its script runs the upload tool.\<close>

definition is_golioth_upload :: "step \<Rightarrow> bool" where
  "is_golioth_upload s \<longleftrightarrow>
     (case step_action s of
        Uses a \<Rightarrow> False
      | Run ls \<Rightarrow> Python ''./tools/upload-to-golioth.py'' \<in> set ls)"

text \<open>
  The deployment target of an upload step is what its \<open>env:\<close> hands to the tool: the
  project, the blueprint and the rollout flag.
\<close>

record target =
  project :: string
  blueprint :: string
  rollout :: bool

text \<open>
  The environment a script runs in: every value of the step's \<open>env:\<close>, the secrets
  looked up. A variable that is not set reads as the empty string.
\<close>

definition environ ::
  "(string \<Rightarrow> string) \<Rightarrow> (string \<times> env_value) list \<Rightarrow> (string \<times> string) list" where
  "environ secrets env =
     map (\<lambda>(k, v). (k, case v of Literal x \<Rightarrow> x | Secret n \<Rightarrow> secrets n)) env"

definition getenv :: "(string \<times> string) list \<Rightarrow> string \<Rightarrow> string" where
  "getenv env k = (case map_of env k of None \<Rightarrow> [] | Some v \<Rightarrow> v)"

text \<open>The three variables of a target are written out in the workflow; no secret is in them.\<close>

definition literal :: "(string \<times> env_value) list \<Rightarrow> string \<Rightarrow> string" where
  "literal env k = (case map_of env k of Some (Literal x) \<Rightarrow> x | _ \<Rightarrow> [])"

definition target_of :: "step \<Rightarrow> target" where
  "target_of s =
     \<lparr>project = literal (step_env s) ''GOLIOTH_PROJECT'',
      blueprint = literal (step_env s) ''GOLIOTH_BLUEPRINT'',
      rollout = (literal (step_env s) ''GOLIOTH_ROLLOUT'' = ''true'')\<rparr>"

text \<open>
  The workflow has no resolver of its own: each upload step is gated by its own
  expression, and every gate is evaluated. The targets a ref selects are those of the
  upload steps whose gate holds, in the order of the workflow.
\<close>

definition selected :: "string \<Rightarrow> target list" where
  "selected github_ref =
     map target_of (filter (\<lambda>s. is_golioth_upload s \<and> holds (step_if s) github_ref) steps)"


section \<open>The file system the recipes work on\<close>

text \<open>
  A file system maps a path to what is there: a regular file with its bytes, a directory
  or a symbolic link with its target. Paths are absolute strings; the model keeps one
  entry per path and does not track parent directories, permissions or links inside a
  path's directory part; where these decide whether a command fails, the system the
  command runs on decides. Artifacts are opaque byte strings.
\<close>

type_synonym byte = "8 word"

datatype node =
    File "byte list"
  | Dir
  | Symlink string

type_synonym fs = "string \<Rightarrow> node option"

text \<open>
  Following the links at a path, at most \<open>n\<close> of them one after the other: the path of
  the first entry that is not a link (it may be absent), or nothing when the links run
  out.
\<close>

fun realpath :: "nat \<Rightarrow> fs \<Rightarrow> string \<Rightarrow> string option" where
  "realpath 0 f p = (case f p of Some (Symlink t) \<Rightarrow> None | _ \<Rightarrow> Some p)"
| "realpath (Suc n) f p = (case f p of Some (Symlink t) \<Rightarrow> realpath n f t | _ \<Rightarrow> Some p)"

text \<open>The system follows up to 40 links.\<close>

definition max_links :: nat where
  "max_links = 40"

text \<open>What a path leads to, links followed: a file, a directory or nothing.\<close>

definition stat :: "fs \<Rightarrow> string \<Rightarrow> node option" where
  "stat f p = (case realpath max_links f p of None \<Rightarrow> None | Some q \<Rightarrow> f q)"

text \<open>The last component of a path, as \<open>cp\<close> and \<open>ln\<close> use it for the name in a directory.\<close>

definition basename :: "string \<Rightarrow> string" where
  "basename p = rev (takeWhile (\<lambda>c. c \<noteq> CHR ''/'') (rev p))"

text \<open>The path of the entry a directory gets for something copied or linked into it.\<close>

definition entry :: "string \<Rightarrow> string \<Rightarrow> string" where
  "entry d p = d @ ''/'' @ basename p"

text \<open>
  What the model does not track, the system decides: permissions, parent directories,
  a read-only file system. A command asks the system for each change it makes, and the
  system may refuse.
\<close>

datatype operation =
    Unlink string
  | Unlink_tree string
  | Make_link string
  | Make_dir string
  | Copy string string

text \<open>What a command prints when it fails; a command with no diagnostic exits zero.\<close>

datatype diag =
    Refused operation
  | No_such_file string
  | Is_a_directory string
  | Omitting_directory string
  | Not_a_directory string
  | Cannot_overwrite_directory string
  | Same_file string
  | Too_many_links string
  | Dangling_symlink string
  | File_exists string
  | Exit_status nat

text \<open>
  The system a command runs on: which operations it refuses in a state of the file
  system, and which paths are, in a state, further names of one regular file (hard
  links).
\<close>

record system =
  refuses :: "fs \<Rightarrow> operation \<Rightarrow> bool"
  linked :: "fs \<Rightarrow> string \<Rightarrow> string \<Rightarrow> bool"

text \<open>A path holds a regular file: the entry itself, not a link to one.\<close>

definition is_file :: "fs \<Rightarrow> string \<Rightarrow> bool" where
  "is_file f p = (case f p of Some (File b) \<Rightarrow> True | _ \<Rightarrow> False)"

text \<open>
  \<open>rm -f p\<close>: removes a file or a link, unless the system refuses; is content with
  nothing there; fails on a directory.
\<close>

definition rm_f :: "system \<Rightarrow> string \<Rightarrow> fs \<Rightarrow> diag list \<times> fs" where
  "rm_f sys p f =
     (case f p of
        None \<Rightarrow> ([], f)
      | Some Dir \<Rightarrow> ([Is_a_directory p], f)
      | Some _ \<Rightarrow>
          (if refuses sys f (Unlink p) then ([Refused (Unlink p)], f) else ([], f(p := None))))"

text \<open>
  \<open>ln -sfn target link\<close>: a directory at \<open>link\<close> receives the link inside it, under the
  target's last component; anything else at \<open>link\<close> (a link to a directory too, by
  \<open>-n\<close>) is replaced. The system may refuse to make the link: the directory it is to
  be made in is missing, or not writable.
\<close>

definition ln_sfn :: "system \<Rightarrow> string \<Rightarrow> string \<Rightarrow> fs \<Rightarrow> diag list \<times> fs" where
  "ln_sfn sys t l f =
     (case f l of
        Some Dir \<Rightarrow>
          (let l' = entry l t in
           case f l' of
             Some Dir \<Rightarrow> ([Cannot_overwrite_directory l'], f)
           | _ \<Rightarrow>
               (if refuses sys f (Make_link l') then ([Refused (Make_link l')], f)
                else ([], f(l' \<mapsto> Symlink t))))
      | _ \<Rightarrow>
          (if refuses sys f (Make_link l) then ([Refused (Make_link l)], f)
           else ([], f(l \<mapsto> Symlink t))))"

text \<open>
  \<open>mkdir -p p\<close>: creates the directory when nothing is there, unless the system refuses;
  accepts one that exists.
\<close>

definition mkdir_p :: "system \<Rightarrow> string \<Rightarrow> fs \<Rightarrow> diag list \<times> fs" where
  "mkdir_p sys p f =
     (case stat f p of
        Some Dir \<Rightarrow> ([], f)
      | Some _ \<Rightarrow> ([File_exists p], f)
      | None \<Rightarrow>
          (if f p \<noteq> None then ([File_exists p], f)
           else if refuses sys f (Make_dir p) then ([Refused (Make_dir p)], f)
           else ([], f(p \<mapsto> Dir))))"

text \<open>
  The source and the file at \<open>q\<close> are the same file: the source leads to \<open>q\<close>, or to a
  further name of the file at \<open>q\<close>.
\<close>

definition same_file :: "system \<Rightarrow> fs \<Rightarrow> string \<Rightarrow> string \<Rightarrow> bool" where
  "same_file sys f src q =
     (case realpath max_links f src of
        None \<Rightarrow> False
      | Some r \<Rightarrow> r = q \<or> linked sys f r q)"

text \<open>
  New bytes for the regular file at \<open>q\<close>: every further name of the file shows them
  too.
\<close>

definition overwrite :: "system \<Rightarrow> string \<Rightarrow> byte list \<Rightarrow> fs \<Rightarrow> fs" where
  "overwrite sys q b f =
     (\<lambda>p. if p = q \<or> (linked sys f p q \<and> is_file f p) then Some (File b) else f p)"

text \<open>
  \<open>cp\<close> of one source into a directory: the copy is named by the source's last
  component. A missing source and a directory are reported and skipped; so is a
  destination that is the source itself, and a copy the system refuses. An existing
  file of that name is overwritten, a missing one created.
\<close>

definition cp_one ::
  "system \<Rightarrow> string \<Rightarrow> string \<Rightarrow> diag list \<times> fs \<Rightarrow> diag list \<times> fs" where
  "cp_one sys d src acc =
     (case acc of (ds, f) \<Rightarrow>
        (case stat f src of
           None \<Rightarrow> (ds @ [No_such_file src], f)
         | Some (File b) \<Rightarrow>
             (let dst = entry d src in
              case realpath max_links f dst of
                None \<Rightarrow> (ds @ [Too_many_links dst], f)
              | Some q \<Rightarrow>
                  (case f q of
                     Some Dir \<Rightarrow> (ds @ [Cannot_overwrite_directory dst], f)
                   | None \<Rightarrow>
                       (if q \<noteq> dst then (ds @ [Dangling_symlink dst], f)
                        else if refuses sys f (Copy src q) then (ds @ [Refused (Copy src q)], f)
                        else (ds, f(q \<mapsto> File b)))
                   | Some _ \<Rightarrow>
                       (if same_file sys f src q then (ds @ [Same_file src], f)
                        else if refuses sys f (Copy src q) then (ds @ [Refused (Copy src q)], f)
                        else (ds, overwrite sys q b f))))
         | Some _ \<Rightarrow> (ds @ [Omitting_directory src], f)))"

text \<open>
  \<open>cp src... d\<close>: every source is tried, in order; the exit status is non-zero when any
  of them failed.
\<close>

definition cp :: "system \<Rightarrow> string list \<Rightarrow> string \<Rightarrow> fs \<Rightarrow> diag list \<times> fs" where
  "cp sys srcs d f =
     (case stat f d of
        Some Dir \<Rightarrow> foldl (\<lambda>acc src. cp_one sys d src acc) ([], f) srcs
      | _ \<Rightarrow> ([Not_a_directory d], f))"

text \<open>A path is free for a copy: nothing is there, or a regular file that \<open>cp\<close> overwrites.\<close>

definition free_or_file :: "fs \<Rightarrow> string \<Rightarrow> bool" where
  "free_or_file f p = (case f p of None \<Rightarrow> True | Some (File b) \<Rightarrow> True | _ \<Rightarrow> False)"

text \<open>A path can serve as the directory of a bundle: nothing is there, or a directory.\<close>

definition free_or_dir :: "fs \<Rightarrow> string \<Rightarrow> bool" where
  "free_or_dir f p = (case f p of None \<Rightarrow> True | Some Dir \<Rightarrow> True | _ \<Rightarrow> False)"

section \<open>The Makefile\<close>

text \<open>
  \<open>${CURDIR}\<close> is the directory \<open>make\<close> runs in. Every recipe line runs there, so the
  relative \<open>./firmware\<close> is written resolved against it. Of the goals of the Makefile
  only \<open>build\<close> is embedded; \<open>test\<close>, which the workflow runs as well, is an external
  program to the model, and \<open>flash\<close> and \<open>clean\<close> are no part of a release.
\<close>

definition MP_DIR :: "string \<Rightarrow> string" where
  "MP_DIR curdir = curdir @ ''/vendor/micropython''"

definition UNIX_DIR :: "string \<Rightarrow> string" where
  "UNIX_DIR curdir = MP_DIR curdir @ ''/ports/unix''"

definition PORT_DIR :: "string \<Rightarrow> string" where
  "PORT_DIR curdir = MP_DIR curdir @ ''/ports/esp32''"

definition BOARD :: string where
  "BOARD = ''ribbit''"

definition BUILD_DIR :: "string \<Rightarrow> string" where
  "BUILD_DIR curdir = PORT_DIR curdir @ ''/build-'' @ BOARD"

definition frozen_content :: "string \<Rightarrow> string" where
  "frozen_content curdir = BUILD_DIR curdir @ ''/frozen_content.c''"

definition firmware_dir :: "string \<Rightarrow> string" where
  "firmware_dir curdir = curdir @ ''/firmware''"

text \<open>The four images the recipe copies, as the port's build leaves them.\<close>

definition artifacts :: "string \<Rightarrow> string list" where
  "artifacts curdir =
     [BUILD_DIR curdir @ ''/bootloader/bootloader.bin'',
      BUILD_DIR curdir @ ''/partition_table/partition-table.bin'',
      BUILD_DIR curdir @ ''/ota_data_initial.bin'',
      BUILD_DIR curdir @ ''/micropython.bin'']"

text \<open>A recipe line.\<close>

datatype command =
    Rm_f string
  | Ln_sfn string string
  | Make_C string "(string \<times> string) list"
  | Mkdir_p string
  | Cp "string list" string

text \<open>
  The port's own \<open>make\<close> is the external toolchain: given its directory and variables it
  changes the file system somehow and exits with a status.
\<close>

type_synonym toolchain = "string \<Rightarrow> (string \<times> string) list \<Rightarrow> fs \<Rightarrow> nat \<times> fs"

fun exec :: "system \<Rightarrow> toolchain \<Rightarrow> command \<Rightarrow> fs \<Rightarrow> diag list \<times> fs" where
  "exec sys tc (Rm_f p) f = rm_f sys p f"
| "exec sys tc (Ln_sfn t l) f = ln_sfn sys t l f"
| "exec sys tc (Make_C d vars) f =
     (case tc d vars f of (st, f') \<Rightarrow> (if st = 0 then [] else [Exit_status st], f'))"
| "exec sys tc (Mkdir_p p) f = mkdir_p sys p f"
| "exec sys tc (Cp srcs d) f = cp sys srcs d f"

text \<open>
  A run of a recipe: the line that failed with its diagnostics (none when every line
  exited zero), the file system it leaves, and each line that was started with the file
  system it started on. \<open>make\<close> stops at the first line that fails.
\<close>

record run =
  failed :: "(command \<times> diag list) option"
  final :: fs
  started :: "(command \<times> fs) list"

fun run_recipe :: "system \<Rightarrow> toolchain \<Rightarrow> command list \<Rightarrow> fs \<Rightarrow> run" where
  "run_recipe sys tc [] f = \<lparr>failed = None, final = f, started = []\<rparr>"
| "run_recipe sys tc (c # cs) f =
     (case exec sys tc c f of
        ([], f') \<Rightarrow> (let r = run_recipe sys tc cs f' in r\<lparr>started := (c, f) # started r\<rparr>)
      | (ds, f') \<Rightarrow> \<lparr>failed = Some (c, ds), final = f', started = [(c, f)]\<rparr>)"

text \<open>
  The recipe of the goal \<open>build\<close>, the first goal of the Makefile and so its default.
  Its first three lines compile: they clear the stale frozen content, link the board
  into the port and run the port's \<open>make\<close>. Its last two lines bundle: they create the
  firmware directory and copy the images into it.
\<close>

definition compile_lines :: "string \<Rightarrow> command list" where
  "compile_lines curdir =
     [Rm_f (frozen_content curdir),
      Ln_sfn (curdir @ ''/board'') (PORT_DIR curdir @ ''/boards/ribbit''),
      Make_C (PORT_DIR curdir) [(''BOARD'', BOARD), (''FROZEN_MANIFEST'', curdir @ ''/manifest.py'')]]"

definition bundle_lines :: "string list \<Rightarrow> string \<Rightarrow> command list" where
  "bundle_lines srcs d = [Mkdir_p d, Cp srcs d]"

definition build_recipe :: "string \<Rightarrow> command list" where
  "build_recipe curdir = compile_lines curdir @ bundle_lines (artifacts curdir) (firmware_dir curdir)"

definition build :: "system \<Rightarrow> toolchain \<Rightarrow> string \<Rightarrow> fs \<Rightarrow> run" where
  "build sys tc curdir f = run_recipe sys tc (build_recipe curdir) f"


section \<open>The upload tool\<close>

text \<open>
  Modelled from the spec: the remote device-management service, as the upload tool
  meets it. These are the calls the tool makes and the answers it can get; the service
  answers a call knowing the calls made before it.
\<close>

datatype call =
    Authenticate string string
  | Upload_artifact string string "byte list"
  | Issue_rollout string

datatype response =
    Accepted
  | Auth_rejected
  | Transport_error
  | Server_rejected

type_synonym service = "call list \<Rightarrow> call \<Rightarrow> response"

datatype upload_failure =
    Auth
  | Transport
  | Rejected
  | Malformed_bundle

text \<open>
  Modelled from the spec: \<open>tools/upload-to-golioth.py\<close>, which the workflow runs and the
  sources do not hold. A call that meets a transient transport failure may be retried a
  bounded number of times; here \<open>n\<close> is the number of retries left.
\<close>

fun send :: "service \<Rightarrow> nat \<Rightarrow> call \<Rightarrow> call list \<Rightarrow> response \<times> call list" where
  "send sv 0 c h = (sv h c, h @ [c])"
| "send sv (Suc n) c h =
     (case sv h c of
        Transport_error \<Rightarrow> send sv n c (h @ [c])
      | r \<Rightarrow> (r, h @ [c]))"

text \<open>
  Modelled from the spec: the phase of a failure. An answer other than acceptance
  aborts the publication.
\<close>

fun failure_of :: "response \<Rightarrow> upload_failure option" where
  "failure_of Accepted = None"
| "failure_of Auth_rejected = Some Auth"
| "failure_of Transport_error = Some Transport"
| "failure_of Server_rejected = Some Rejected"

text \<open>
  Modelled from the spec: the tool uploads each artifact of the bundle tagged with the
  target's blueprint, and stops at the first one that fails.
\<close>

fun upload_all ::
  "service \<Rightarrow> nat \<Rightarrow> string \<Rightarrow> (string \<times> byte list) list \<Rightarrow> call list \<Rightarrow>
   upload_failure option \<times> call list" where
  "upload_all sv n bp [] h = (None, h)"
| "upload_all sv n bp ((a, b) # as) h =
     (case send sv n (Upload_artifact bp a b) h of
        (Accepted, h') \<Rightarrow> upload_all sv n bp as h'
      | (r, h') \<Rightarrow> (failure_of r, h'))"

text \<open>
  Modelled from the spec: \<open>publish\<close> of the Release Uploader. It authenticates, uploads
  every artifact and, when the target's rollout flag is set, issues the rollout command.
  Authentication and uploads are retried on transport failures, up to the bound; the
  rollout command is sent once and any failure of it is fatal.
\<close>

definition publish ::
  "service \<Rightarrow> nat \<Rightarrow> (string \<times> byte list) list \<Rightarrow> target \<Rightarrow> string \<Rightarrow> call list \<Rightarrow>
   upload_failure option \<times> call list" where
  "publish sv n bundle t key h =
     (case send sv n (Authenticate (project t) key) h of
        (Accepted, h1) \<Rightarrow>
          (case upload_all sv n (blueprint t) bundle h1 of
             (None, h2) \<Rightarrow>
               (if rollout t then
                  (case send sv 0 (Issue_rollout (blueprint t)) h2 of (r, h3) \<Rightarrow> (failure_of r, h3))
                else (None, h2))
           | (Some e, h2) \<Rightarrow> (Some e, h2))
      | (r, h1) \<Rightarrow> (failure_of r, h1))"

text \<open>
  Modelled from the spec: the bundle the tool publishes is the four images of the
  firmware directory, under the names they have there; a directory that lacks one of
  them is no bundle.
\<close>

fun read_bundle :: "fs \<Rightarrow> string \<Rightarrow> string list \<Rightarrow> (string \<times> byte list) list option" where
  "read_bundle f d [] = Some []"
| "read_bundle f d (a # as) =
     (case stat f (d @ ''/'' @ a) of
        Some (File b) \<Rightarrow>
          (case read_bundle f d as of None \<Rightarrow> None | Some bs \<Rightarrow> Some ((a, b) # bs))
      | _ \<Rightarrow> None)"

section \<open>A run of the job\<close>

text \<open>
  What a run works on: the files of the workspace and the calls the remote service has
  received so far.
\<close>

record world =
  files :: fs
  remote :: "call list"

text \<open>
  What a run depends on and the repository does not hold: the system the commands run
  on, the toolchain, every other program and action (named by its command; it succeeds
  or fails and changes the files somehow), the remote service, the retry bound of the
  upload tool and the secrets of the repository.
\<close>

record externals =
  ext_system :: system
  ext_toolchain :: toolchain
  ext_program :: "string \<Rightarrow> fs \<Rightarrow> bool \<times> fs"
  ext_service :: service
  ext_retries :: nat
  ext_secrets :: "string \<Rightarrow> string"

definition external :: "externals \<Rightarrow> string \<Rightarrow> world \<Rightarrow> bool \<times> world" where
  "external ext cmd w =
     (case ext_program ext cmd (files w) of (ok, f') \<Rightarrow> (ok, w\<lparr>files := f'\<rparr>))"

text \<open>A path of a script, resolved against the workspace the script runs in.\<close>

definition in_workspace :: "string \<Rightarrow> string \<Rightarrow> string" where
  "in_workspace ws p = ws @ ''/'' @ (if take 2 p = ''./'' then drop 2 p else p)"

text \<open>
  \<open>rm -rf p\<close>, where the system does not refuse it: removes what is at \<open>p\<close>, a directory
  with everything below it.
\<close>

definition rm_rf :: "string \<Rightarrow> fs \<Rightarrow> fs" where
  "rm_rf p f =
     (case f p of
        Some Dir \<Rightarrow> (\<lambda>q. if q = p \<or> take (length p + 1) q = p @ ''/'' then None else f q)
      | _ \<Rightarrow> f(p := None))"

text \<open>
  Modelled from the spec: a run of \<open>tools/upload-to-golioth.py\<close>. The tool reads the
  bundle from the firmware directory and publishes it to the target its environment
  names, with the API key of its environment; it exits zero when nothing failed.
\<close>

definition upload_to_golioth ::
  "externals \<Rightarrow> string \<Rightarrow> (string \<times> string) list \<Rightarrow> world \<Rightarrow> bool \<times> world" where
  "upload_to_golioth ext ws env w =
     (case (case read_bundle (files w) (firmware_dir ws) (map basename (artifacts ws)) of
              None \<Rightarrow> (Some Malformed_bundle, remote w)
            | Some bundle \<Rightarrow>
                publish (ext_service ext) (ext_retries ext) bundle
                  \<lparr>project = getenv env ''GOLIOTH_PROJECT'',
                   blueprint = getenv env ''GOLIOTH_BLUEPRINT'',
                   rollout = (getenv env ''GOLIOTH_ROLLOUT'' = ''true'')\<rparr>
                  (getenv env ''GOLIOTH_API_KEY'') (remote w)) of
        (e, h) \<Rightarrow> (e = None, w\<lparr>remote := h\<rparr>))"

text \<open>
  One line of a script. The container mounts the workspace as its working directory, so
  \<open>make\<close> in it runs the default goal, \<open>build\<close>, with \<open>${CURDIR}\<close> the workspace.
\<close>

fun run_line ::
  "externals \<Rightarrow> string \<Rightarrow> (string \<times> string) list \<Rightarrow> script_line \<Rightarrow> world \<Rightarrow> bool \<times> world" where
  "run_line ext ws env Git_submodule_update w = external ext ''git submodule update'' w"
| "run_line ext ws env (Make_submodules d) w = external ext (''make submodules '' @ d) w"
| "run_line ext ws env (Make goal) w =
     (if goal = ''build'' then
        (let r = build (ext_system ext) (ext_toolchain ext) ws (files w)
         in (failed r = None, w\<lparr>files := final r\<rparr>))
      else external ext (''make '' @ goal) w)"
| "run_line ext ws env (Rm_rf p) w =
     (if refuses (ext_system ext) (files w) (Unlink_tree (in_workspace ws p)) then (False, w)
      else (True, w\<lparr>files := rm_rf (in_workspace ws p) (files w)\<rparr>))"
| "run_line ext ws env (Docker_run_make img) w =
     (let r = build (ext_system ext) (ext_toolchain ext) ws (files w)
      in (failed r = None, w\<lparr>files := final r\<rparr>))"
| "run_line ext ws env (Python script) w =
     (if script = ''./tools/upload-to-golioth.py'' then upload_to_golioth ext ws env w
      else external ext (''python '' @ script) w)"

text \<open>A script stops at its first line that fails.\<close>

fun run_script ::
  "externals \<Rightarrow> string \<Rightarrow> (string \<times> string) list \<Rightarrow> script_line list \<Rightarrow> world \<Rightarrow> bool \<times> world" where
  "run_script ext ws env [] w = (True, w)"
| "run_script ext ws env (l # ls) w =
     (case run_line ext ws env l w of
        (True, w') \<Rightarrow> run_script ext ws env ls w'
      | (False, w') \<Rightarrow> (False, w'))"

definition run_step :: "externals \<Rightarrow> string \<Rightarrow> step \<Rightarrow> world \<Rightarrow> bool \<times> world" where
  "run_step ext ws s w =
     (case step_action s of
        Uses a \<Rightarrow> external ext a w
      | Run ls \<Rightarrow> run_script ext ws (environ (ext_secrets ext) (step_env s)) ls w)"

text \<open>
  A run of the job: whether it succeeded, the world it leaves and the steps it executed.
  A step is executed when every step before it succeeded and its \<open>if:\<close> holds of the
  triggering ref; otherwise it is skipped, which is no failure.
\<close>

record job_run =
  succeeded :: bool
  world_after :: world
  executed :: "step list"

fun run_steps :: "externals \<Rightarrow> string \<Rightarrow> string \<Rightarrow> step list \<Rightarrow> bool \<Rightarrow> world \<Rightarrow> job_run" where
  "run_steps ext ws github_ref [] ok w = \<lparr>succeeded = ok, world_after = w, executed = []\<rparr>"
| "run_steps ext ws github_ref (s # ss) ok w =
     (if ok \<and> holds (step_if s) github_ref then
        (case run_step ext ws s w of
           (ok', w') \<Rightarrow>
             (let r = run_steps ext ws github_ref ss ok' w' in r\<lparr>executed := s # executed r\<rparr>))
      else run_steps ext ws github_ref ss ok w)"

definition run_job :: "externals \<Rightarrow> string \<Rightarrow> string \<Rightarrow> world \<Rightarrow> job_run" where
  "run_job ext ws github_ref w = run_steps ext ws github_ref steps True w"

text \<open>
  The two targets the workflow's upload steps name: the beta blueprint with the rollout
  flag set, and the production blueprint with the flag clear.
\<close>

definition beta_target :: target where
  "beta_target = \<lparr>project = ''ribbit'', blueprint = beta_blueprint, rollout = True\<rparr>"

definition production_target :: target where
  "production_target = \<lparr>project = ''ribbit'', blueprint = production_blueprint, rollout = False\<rparr>"


text \<open>
  Sample inputs: a system that refuses nothing and has no hard links, a toolchain that
  leaves the four images in the build directory of the port it is run in, programs that
  all succeed and change nothing, a service that accepts every call, and a world with
  no file and no call.
\<close>

definition obliging :: system where
  "obliging = \<lparr>refuses = (\<lambda>f op. False), linked = (\<lambda>f p q. False)\<rparr>"

definition sample_toolchain :: toolchain where
  "sample_toolchain d vars f =
     (0, f(d @ ''/build-ribbit/bootloader/bootloader.bin'' \<mapsto> File [1],
           d @ ''/build-ribbit/partition_table/partition-table.bin'' \<mapsto> File [2],
           d @ ''/build-ribbit/ota_data_initial.bin'' \<mapsto> File [3],
           d @ ''/build-ribbit/micropython.bin'' \<mapsto> File [4]))"

definition sample_ext :: externals where
  "sample_ext =
     \<lparr>ext_system = obliging, ext_toolchain = sample_toolchain,
      ext_program = (\<lambda>cmd f. (True, f)),
      ext_service = (\<lambda>h c. Accepted), ext_retries = 3, ext_secrets = (\<lambda>n. ''key'')\<rparr>"

definition empty_world :: world where
  "empty_world = \<lparr>files = (\<lambda>p. None), remote = []\<rparr>"

text \<open>
  More sample inputs: the file system with nothing but the four images the sample
  toolchain leaves, and the same with a firmware directory that holds an older bundle.
\<close>

definition built :: "string \<Rightarrow> fs" where
  "built ws =
     (\<lambda>p. None)(BUILD_DIR ws @ ''/bootloader/bootloader.bin'' \<mapsto> File [1],
                 BUILD_DIR ws @ ''/partition_table/partition-table.bin'' \<mapsto> File [2],
                 BUILD_DIR ws @ ''/ota_data_initial.bin'' \<mapsto> File [3],
                 BUILD_DIR ws @ ''/micropython.bin'' \<mapsto> File [4])"

definition stale :: "string \<Rightarrow> fs" where
  "stale ws =
     (built ws)(firmware_dir ws \<mapsto> Dir,
                firmware_dir ws @ ''/bootloader.bin'' \<mapsto> File [9],
                firmware_dir ws @ ''/partition-table.bin'' \<mapsto> File [9],
                firmware_dir ws @ ''/ota_data_initial.bin'' \<mapsto> File [9],
                firmware_dir ws @ ''/micropython.bin'' \<mapsto> File [9])"

text \<open>A file system with nothing but frozen content an earlier build left.\<close>

definition leftover :: "string \<Rightarrow> fs" where
  "leftover ws = (\<lambda>p. None)(frozen_content ws \<mapsto> File [7])"

text \<open>A toolchain that exits zero and leaves an empty application image.\<close>

definition hollow_toolchain :: toolchain where
  "hollow_toolchain d vars f =
     (0, f(d @ ''/build-ribbit/bootloader/bootloader.bin'' \<mapsto> File [1],
           d @ ''/build-ribbit/partition_table/partition-table.bin'' \<mapsto> File [2],
           d @ ''/build-ribbit/ota_data_initial.bin'' \<mapsto> File [3],
           d @ ''/build-ribbit/micropython.bin'' \<mapsto> File []))"

text \<open>A toolchain that exits zero and leaves no application image.\<close>

definition partial_toolchain :: toolchain where
  "partial_toolchain d vars f =
     (0, f(d @ ''/build-ribbit/bootloader/bootloader.bin'' \<mapsto> File [1],
           d @ ''/build-ribbit/partition_table/partition-table.bin'' \<mapsto> File [2],
           d @ ''/build-ribbit/ota_data_initial.bin'' \<mapsto> File [3]))"

text \<open>
  The file system on which the copies start when the build runs that toolchain on the
  empty file system.
\<close>

definition partial_tree :: "string \<Rightarrow> fs" where
  "partial_tree ws =
     (\<lambda>p. None)(PORT_DIR ws @ ''/boards/ribbit'' \<mapsto> Symlink (ws @ ''/board''),
                 PORT_DIR ws @ ''/build-ribbit/bootloader/bootloader.bin'' \<mapsto> File [1],
                 PORT_DIR ws @ ''/build-ribbit/partition_table/partition-table.bin'' \<mapsto> File [2],
                 PORT_DIR ws @ ''/build-ribbit/ota_data_initial.bin'' \<mapsto> File [3],
                 firmware_dir ws \<mapsto> Dir)"

text \<open>
  A firmware directory with an older bundle next to a build directory that lacks the
  application image.
\<close>

definition stale_partial :: "string \<Rightarrow> fs" where
  "stale_partial ws = (stale ws)(BUILD_DIR ws @ ''/micropython.bin'' := None)"

text \<open>The sample externals with the toolchain that leaves no application image.\<close>

definition partial_ext :: externals where
  "partial_ext = sample_ext\<lparr>ext_toolchain := partial_toolchain\<rparr>"


text \<open>The rollout commands among the calls the remote service received.\<close>

definition is_rollout :: "call \<Rightarrow> bool" where
  "is_rollout c = (case c of Issue_rollout b \<Rightarrow> True | _ \<Rightarrow> False)"

definition rollouts :: "call list \<Rightarrow> nat" where
  "rollouts h = length (filter is_rollout h)"

text \<open>How often the script of a step runs the upload tool.\<close>

definition tool_runs :: "step \<Rightarrow> nat" where
  "tool_runs s =
     (case step_action s of
        Uses a \<Rightarrow> 0
      | Run ls \<Rightarrow> count_list ls (Python ''./tools/upload-to-golioth.py''))"

text \<open>A service that accepts everything but the rollout command, which it never answers.\<close>

definition deaf_service :: service where
  "deaf_service h c = (if is_rollout c then Transport_error else Accepted)"

section \<open>Properties of the gates\<close>

lemma fold_case_main: "fold_case ''refs/heads/main'' = ''refs/heads/main''"
  by (simp add: fold_case_def to_lower_def)

lemma fold_case_tag: "fold_case ''refs/tags/v'' = ''refs/tags/v''"
  by (simp add: fold_case_def to_lower_def)

lemma gates_exclusive:
  "\<not> (str_eq r ''refs/heads/main'' \<and> startsWith r ''refs/tags/v'')"
  by (auto simp: str_eq_def startsWith_def fold_case_main fold_case_tag)

lemmas step_defs =
  checkout_step_def submodules_step_def test_step_def build_step_def
  upload_main_step_def upload_release_step_def artifacts_step_def

lemma selected_unfold:
  "selected r =
     (if str_eq r ''refs/heads/main'' then [beta_target] else []) @
     (if startsWith r ''refs/tags/v'' then [production_target] else [])"
  by (simp add: selected_def steps_def step_defs is_golioth_upload_def target_of_def
      literal_def beta_target_def production_target_def)


lemma selected_length: "length (selected r) \<le> 1"
  using gates_exclusive [of r] by (auto simp: selected_unfold)

text \<open>
  Claim C1, as the workflow has it. The gates compare the full ref, ignoring case: the
  ref \<open>refs/heads/main\<close> selects the beta target alone, whose rollout flag is set; every
  ref that begins with \<open>refs/tags/v\<close> selects the production target alone, whose rollout
  flag is clear; every other ref selects no target.
\<close>

theorem selected_by_ref:
  "selected r =
     (if str_eq r ''refs/heads/main'' then [beta_target]
      else if startsWith r ''refs/tags/v'' then [production_target]
      else [])"
  using gates_exclusive [of r] by (auto simp: selected_unfold)

theorem selected_by_ref_witness:
  "selected ''refs/heads/main'' = [beta_target] \<and> rollout beta_target \<and>
   selected ''refs/tags/v1.2.0'' = [production_target] \<and> \<not> rollout production_target \<and>
   selected ''refs/heads/feature/x'' = []"
  using selected_by_ref [of "''refs/heads/main''"] selected_by_ref [of "''refs/tags/v1.2.0''"]
    selected_by_ref [of "''refs/heads/feature/x''"]
  by (simp add: str_eq_def startsWith_def fold_case_def to_lower_def
      beta_target_def production_target_def)

text \<open>
  Claim C1 as it is stated fails at a ref that is neither the ref of the default branch
  nor one that begins with the prefix of the version tags: the branch \<open>MAIN\<close> is another
  branch than \<open>main\<close>, and its ref selects the beta target all the same, since the gate
  compares ignoring case.
\<close>

theorem selected_other_case:
  "''refs/heads/MAIN'' \<noteq> ''refs/heads/main'' \<and>
   take (length ''refs/tags/v'') ''refs/heads/MAIN'' \<noteq> ''refs/tags/v'' \<and>
   selected ''refs/heads/MAIN'' = [beta_target] \<and> rollout beta_target"
  by (simp add: selected_unfold str_eq_def startsWith_def fold_case_def to_lower_def
      beta_target_def)

section \<open>Properties of the file system commands\<close>

lemma obliging_refuses: "refuses obliging g op = False"
  by (simp add: obliging_def)

lemma obliging_linked: "linked obliging g p q = False"
  by (simp add: obliging_def)

lemma realpath_not_link: "(\<And>t. f p \<noteq> Some (Symlink t)) \<Longrightarrow> realpath n f p = Some p"
  by (cases n) (auto split: option.splits node.splits)

lemma realpath_end: "realpath n f p = Some q \<Longrightarrow> f q \<noteq> Some (Symlink t)"
  by (induction n arbitrary: p) (auto split: option.splits node.splits)

lemma is_file_iff: "is_file f p \<longleftrightarrow> (\<exists>b. f p = Some (File b))"
  by (auto simp: is_file_def split: option.splits node.splits)

lemma free_or_file_iff: "free_or_file f p \<longleftrightarrow> f p = None \<or> (\<exists>b. f p = Some (File b))"
  by (auto simp: free_or_file_def split: option.splits node.splits)

lemma free_or_dir_iff: "free_or_dir f p \<longleftrightarrow> f p = None \<or> f p = Some Dir"
  by (auto simp: free_or_dir_def split: option.splits node.splits)

lemma realpath_free_or_file: "free_or_file f p \<Longrightarrow> realpath n f p = Some p"
  by (rule realpath_not_link) (auto simp: free_or_file_iff)

lemma stat_None: "f p = None \<Longrightarrow> stat f p = None"
  by (simp add: stat_def realpath_not_link)

lemma stat_File: "f p = Some (File b) \<Longrightarrow> stat f p = Some (File b)"
  by (simp add: stat_def realpath_not_link)

lemma stat_Dir: "f p = Some Dir \<Longrightarrow> stat f p = Some Dir"
  by (simp add: stat_def realpath_not_link)

lemma stat_not_link: "stat f p \<noteq> Some (Symlink t)"
  by (auto simp: stat_def realpath_end split: option.splits)


text \<open>
  A change that only writes files, where nothing or a file was, leaves every chain of
  links as it is.
\<close>

lemma realpath_files:
  assumes "\<And>p. f' p = f p \<or> (free_or_file f p \<and> is_file f' p)"
  shows "realpath n f p = Some q0 \<Longrightarrow> realpath n f' p = Some q0"
proof (induction n arbitrary: p)
  case 0
  with assms [of p] show ?case
    by (auto simp: free_or_file_iff is_file_iff split: option.splits node.splits)
next
  case (Suc n)
  with assms [of p] show ?case
    by (auto simp: free_or_file_iff is_file_iff split: option.splits node.splits)
qed

lemma stat_files:
  assumes "\<And>p. f' p = f p \<or> (free_or_file f p \<and> is_file f' p)"
    and "stat f p = Some (File c)"
  shows "\<exists>c'. stat f' p = Some (File c')"
proof -
  from assms(2) obtain q0 where q0: "realpath max_links f p = Some q0" "f q0 = Some (File c)"
    by (auto simp: stat_def split: option.splits)
  from realpath_files [of f' f, OF assms(1) q0(1)]
  have "realpath max_links f' p = Some q0" .
  with assms(1) [of q0] q0(2) show ?thesis
    by (auto simp: stat_def is_file_iff)
qed

text \<open>
  What one copy does: it reports and changes nothing, or it creates the entry, or it
  overwrites the file the entry leads to.
\<close>

lemma cp_one_shape:
  assumes "cp_one sys d s (ds, f) = (ds', f')"
  shows "(f' = f \<and> (\<exists>e. ds' = ds @ [e])) \<or>
         (ds' = ds \<and> (\<exists>q b. stat f s = Some (File b) \<and>
            realpath max_links f (entry d s) = Some q \<and>
            ((f q = None \<and> q = entry d s \<and> f' = f(q \<mapsto> File b)) \<or>
             (is_file f q \<and> f' = overwrite sys q b f))))"
  using assms
  by (auto simp: cp_one_def Let_def is_file_iff
      split: option.splits node.splits if_splits dest: realpath_end)

lemma cp_one_changes:
  assumes "cp_one sys d s (ds, f) = (ds', f')"
  shows "f' p = f p \<or> (is_file f' p \<and> (is_file f p \<or> (f p = None \<and> p = entry d s)))"
  using cp_one_shape [OF assms]
  by (auto simp: overwrite_def is_file_iff split: if_splits)

lemma cp_one_files:
  assumes "cp_one sys d s (ds, f) = (ds', f')"
  shows "f' p = f p \<or> (free_or_file f p \<and> is_file f' p)"
  using cp_one_changes [OF assms, of p] by (auto simp: free_or_file_iff is_file_iff)

lemma cp_one_missing: "stat f s = None \<Longrightarrow> cp_one sys d s (ds, f) = (ds @ [No_such_file s], f)"
  by (simp add: cp_one_def)

lemma cp_one_keeps_free:
  assumes "f p = None" and "p \<noteq> entry d s"
  shows "snd (cp_one sys d s (ds, f)) p = None"
proof -
  obtain ds' f' where r: "cp_one sys d s (ds, f) = (ds', f')" by (cases "cp_one sys d s (ds, f)")
  from cp_one_changes [OF r, of p] assms show ?thesis unfolding r by (auto simp: is_file_iff)
qed


lemma cp_one_keeps_stat_file:
  assumes "stat f p = Some (File c)"
  shows "\<exists>c'. stat (snd (cp_one sys d s (ds, f))) p = Some (File c')"
proof -
  obtain ds' f' where r: "cp_one sys d s (ds, f) = (ds', f')" by (cases "cp_one sys d s (ds, f)")
  from stat_files [of f' f, OF cp_one_files [OF r] assms] show ?thesis unfolding r by simp
qed

lemma cp_one_diags: "\<exists>es. fst (cp_one sys d s (ds, f)) = ds @ es"
proof -
  obtain ds' f' where r: "cp_one sys d s (ds, f) = (ds', f')" by (cases "cp_one sys d s (ds, f)")
  from cp_one_shape [OF r] show ?thesis unfolding r by auto
qed

text \<open>After a copy that reported nothing, the entry leads to a file with the source's bytes.\<close>

lemma cp_one_entry:
  assumes "cp_one sys d s (ds, f) = (ds, f')"
  shows "\<exists>b. stat f s = Some (File b) \<and> stat f' (entry d s) = Some (File b)"
proof -
  from cp_one_shape [OF assms] obtain q b where
    b: "stat f s = Some (File b)" and q: "realpath max_links f (entry d s) = Some q"
    and w: "(f q = None \<and> q = entry d s \<and> f' = f(q \<mapsto> File b)) \<or>
            (is_file f q \<and> f' = overwrite sys q b f)"
    by auto
  from realpath_files [of f' f, OF cp_one_files [OF assms] q]
  have "realpath max_links f' (entry d s) = Some q" .
  moreover from w have "f' q = Some (File b)" by (auto simp: overwrite_def)
  ultimately have "stat f' (entry d s) = Some (File b)" by (simp add: stat_def)
  with b show ?thesis by blast
qed

text \<open>
  A copy that reported nothing, of a regular file to an entry that was free or a regular
  file with no other name: the entry holds the source's bytes and nothing else changed.
\<close>

lemma cp_one_plain:
  assumes "cp_one sys d s (ds, f) = (ds, f')"
    and "f s = Some (File b)"
    and "f (entry d s) = None \<or> (is_file f (entry d s) \<and> (\<forall>p. \<not> linked sys f p (entry d s)))"
  shows "f' = f(entry d s \<mapsto> File b)"
proof -
  from assms(3) have "free_or_file f (entry d s)" by (auto simp: free_or_file_iff is_file_iff)
  then have q: "realpath max_links f (entry d s) = Some (entry d s)"
    by (rule realpath_free_or_file)
  from cp_one_shape [OF assms(1)] q stat_File [of f s b, OF assms(2)]
  have "f' = f(entry d s \<mapsto> File b) \<or>
      (is_file f (entry d s) \<and> f' = overwrite sys (entry d s) b f)"
    by auto
  moreover have "overwrite sys (entry d s) b f = f(entry d s \<mapsto> File b)"
    if "is_file f (entry d s)"
    using assms(3) that by (auto simp: overwrite_def fun_eq_iff is_file_iff)
  ultimately show ?thesis by auto
qed

text \<open>On the system that refuses nothing the copy of a regular file is made.\<close>

lemma cp_one_copies:
  assumes "f s = Some (File b)" and "free_or_file f (entry d s)" and "entry d s \<noteq> s"
  shows "cp_one obliging d s (ds, f) = (ds, f(entry d s \<mapsto> File b))"
proof -
  have "overwrite obliging (entry d s) b f = f(entry d s \<mapsto> File b)"
    by (simp add: overwrite_def fun_eq_iff obliging_linked)
  moreover have "\<not> same_file obliging f s (entry d s)"
    using assms(1,3) by (simp add: same_file_def realpath_not_link obliging_linked)
  ultimately show ?thesis
    using assms
    by (auto simp: cp_one_def Let_def stat_File realpath_free_or_file obliging_refuses
        free_or_file_iff split: option.splits node.splits)
qed


text \<open>The copies of \<open>cp\<close>, one source after the other.\<close>

lemma copies_diags: "\<exists>es. fst (foldl (\<lambda>acc src. cp_one sys d src acc) (ds, f) srcs) = ds @ es"
proof (induction srcs arbitrary: ds f)
  case Nil
  then show ?case by simp
next
  case (Cons s srcs)
  obtain ds1 f1 where r: "cp_one sys d s (ds, f) = (ds1, f1)" by (cases "cp_one sys d s (ds, f)")
  from cp_one_diags [of sys d s ds f] r obtain es1 where "ds1 = ds @ es1" by auto
  moreover from Cons.IH [of ds1 f1] obtain es where
    "fst (foldl (\<lambda>acc src. cp_one sys d src acc) (ds1, f1) srcs) = ds1 @ es" by auto
  ultimately show ?case using r by simp
qed

text \<open>Copies that reported nothing at the end reported nothing at their first source.\<close>

lemma copies_quiet_head:
  assumes "fst (foldl (\<lambda>acc s. cp_one sys d s acc) (ds, f) (a # srcs)) = ds"
  shows "\<exists>f1. cp_one sys d a (ds, f) = (ds, f1) \<and>
           fst (foldl (\<lambda>acc s. cp_one sys d s acc) (ds, f1) srcs) = ds \<and>
           foldl (\<lambda>acc s. cp_one sys d s acc) (ds, f) (a # srcs)
             = foldl (\<lambda>acc s. cp_one sys d s acc) (ds, f1) srcs"
proof -
  obtain ds1 f1 where r: "cp_one sys d a (ds, f) = (ds1, f1)" by (cases "cp_one sys d a (ds, f)")
  from cp_one_diags [of sys d a ds f] r obtain es1 where e1: "ds1 = ds @ es1" by auto
  from copies_diags [of sys d ds1 f1 srcs] obtain es where
    e: "fst (foldl (\<lambda>acc s. cp_one sys d s acc) (ds1, f1) srcs) = ds1 @ es" by auto
  from assms r e e1 have "es1 = []" by simp
  with e1 have ds1: "ds1 = ds" by simp
  with assms r show ?thesis by simp
qed

lemma copies_keep_free:
  assumes "f p = None" and "\<forall>s\<in>set srcs. entry d s \<noteq> p"
  shows "snd (foldl (\<lambda>acc src. cp_one sys d src acc) (ds, f) srcs) p = None"
  using assms
proof (induction srcs arbitrary: ds f)
  case Nil
  then show ?case by simp
next
  case (Cons s srcs)
  obtain ds1 f1 where r: "cp_one sys d s (ds, f) = (ds1, f1)" by (cases "cp_one sys d s (ds, f)")
  from Cons.prems have "f1 p = None" using cp_one_keeps_free [of f p d s sys ds] r by auto
  with Cons r show ?case by simp
qed


lemma copies_keep_stat_file:
  assumes "stat f p = Some (File c)"
  shows "\<exists>c'. stat (snd (foldl (\<lambda>acc src. cp_one sys d src acc) (ds, f) srcs)) p = Some (File c')"
  using assms
proof (induction srcs arbitrary: ds f c)
  case Nil
  then show ?case by simp
next
  case (Cons s srcs)
  obtain ds1 f1 where r: "cp_one sys d s (ds, f) = (ds1, f1)" by (cases "cp_one sys d s (ds, f)")
  from Cons.prems obtain c1 where "stat f1 p = Some (File c1)"
    using cp_one_keeps_stat_file [of f p c sys d s ds] r by auto
  with Cons.IH [of f1 c1 ds1] r show ?case by simp
qed

text \<open>A source with nothing at its path is reported, whatever the other sources are.\<close>

lemma copies_report_missing:
  assumes "f src = None" and "src \<in> set srcs" and "\<forall>s\<in>set srcs. entry d s \<noteq> src"
  shows "No_such_file src \<in> set (fst (foldl (\<lambda>acc s. cp_one sys d s acc) (ds, f) srcs))"
  using assms
proof (induction srcs arbitrary: ds f)
  case Nil
  then show ?case by simp
next
  case (Cons s srcs)
  obtain ds1 f1 where r: "cp_one sys d s (ds, f) = (ds1, f1)" by (cases "cp_one sys d s (ds, f)")
  from Cons.prems have f1: "f1 src = None" using cp_one_keeps_free [of f src d s sys ds] r by auto
  show ?case
  proof (cases "s = src")
    case True
    with Cons.prems r have "ds1 = ds @ [No_such_file src]"
      by (simp add: cp_one_missing stat_None)
    moreover from copies_diags [of sys d ds1 f1 srcs] obtain es where
      "fst (foldl (\<lambda>acc s. cp_one sys d s acc) (ds1, f1) srcs) = ds1 @ es" by auto
    ultimately show ?thesis using r by simp
  next
    case False
    with Cons.prems have "src \<in> set srcs" "\<forall>s\<in>set srcs. entry d s \<noteq> src" by auto
    from Cons.IH [of f1 ds1, OF f1 this] r show ?thesis by simp
  qed
qed

text \<open>
  Copies that report nothing: every source led to a file when its turn came, and every
  entry leads to a file at the end.
\<close>

lemma copies_quiet:
  assumes "fst (foldl (\<lambda>acc s. cp_one sys d s acc) (ds, f) srcs) = ds" and "s \<in> set srcs"
  shows "\<exists>b. stat (snd (foldl (\<lambda>acc s. cp_one sys d s acc) (ds, f) srcs)) (entry d s) = Some (File b)"
  using assms
proof (induction srcs arbitrary: f)
  case Nil
  then show ?case by simp
next
  case (Cons a srcs)
  from copies_quiet_head [OF Cons.prems(1)] obtain f1 where
    r: "cp_one sys d a (ds, f) = (ds, f1)"
    and q: "fst (foldl (\<lambda>acc s. cp_one sys d s acc) (ds, f1) srcs) = ds"
    and step: "foldl (\<lambda>acc s. cp_one sys d s acc) (ds, f) (a # srcs)
             = foldl (\<lambda>acc s. cp_one sys d s acc) (ds, f1) srcs"
    by blast
  show ?case unfolding step
  proof (cases "s = a")
    case True
    from cp_one_entry [OF r] obtain b where "stat f1 (entry d a) = Some (File b)" by auto
    from copies_keep_stat_file [OF this, of sys d ds srcs] True
    show "\<exists>b. stat (snd (foldl (\<lambda>acc s. cp_one sys d s acc) (ds, f1) srcs)) (entry d s)
        = Some (File b)" by simp
  next
    case False
    with Cons.prems have "s \<in> set srcs" by simp
    from Cons.IH [OF q this]
    show "\<exists>b. stat (snd (foldl (\<lambda>acc s. cp_one sys d s acc) (ds, f1) srcs)) (entry d s)
        = Some (File b)" .
  qed
qed

lemma copies_quiet_sources:
  assumes "fst (foldl (\<lambda>acc s. cp_one sys d s acc) (ds, f) srcs) = ds" and "s \<in> set srcs"
  shows "\<exists>b. stat (snd (foldl (\<lambda>acc s. cp_one sys d s acc) (ds, f) srcs)) s = Some (File b)"
  using assms
proof (induction srcs arbitrary: f)
  case Nil
  then show ?case by simp
next
  case (Cons a srcs)
  from copies_quiet_head [OF Cons.prems(1)] obtain f1 where
    r: "cp_one sys d a (ds, f) = (ds, f1)"
    and q: "fst (foldl (\<lambda>acc s. cp_one sys d s acc) (ds, f1) srcs) = ds"
    and step: "foldl (\<lambda>acc s. cp_one sys d s acc) (ds, f) (a # srcs)
             = foldl (\<lambda>acc s. cp_one sys d s acc) (ds, f1) srcs"
    by blast
  show ?case unfolding step
  proof (cases "s = a")
    case True
    from cp_one_entry [OF r] obtain b where "stat f a = Some (File b)" by auto
    from cp_one_keeps_stat_file [OF this, of sys d a ds] r obtain b1 where
      "stat f1 a = Some (File b1)" by auto
    from copies_keep_stat_file [OF this, of sys d ds srcs] True
    show "\<exists>b. stat (snd (foldl (\<lambda>acc s. cp_one sys d s acc) (ds, f1) srcs)) s = Some (File b)"
      by simp
  next
    case False
    with Cons.prems have "s \<in> set srcs" by simp
    from Cons.IH [OF q this]
    show "\<exists>b. stat (snd (foldl (\<lambda>acc s. cp_one sys d s acc) (ds, f1) srcs)) s = Some (File b)" .
  qed
qed

text \<open>
  The plain case: every source is a regular file, every entry is free or a regular file
  with no other name, no two sources share a name and no entry is a source. When the
  copies report nothing, every entry has received the bytes of its source and nothing
  else has changed.
\<close>

lemma copies_plain:
  assumes "fst (foldl (\<lambda>acc s. cp_one sys d s acc) (ds, f) srcs) = ds"
    and "\<forall>s\<in>set srcs. is_file f s"
    and "\<forall>s\<in>set srcs. f (entry d s) = None \<or>
           (is_file f (entry d s) \<and> (\<forall>g p. \<not> linked sys g p (entry d s)))"
    and "distinct (map (entry d) srcs)"
    and "\<forall>s\<in>set srcs. entry d s \<notin> set srcs"
  shows "(\<forall>s\<in>set srcs. snd (foldl (\<lambda>acc s. cp_one sys d s acc) (ds, f) srcs) (entry d s) = f s) \<and>
         (\<forall>p. p \<notin> entry d ` set srcs \<longrightarrow>
            snd (foldl (\<lambda>acc s. cp_one sys d s acc) (ds, f) srcs) p = f p)"
  using assms
proof (induction srcs arbitrary: f)
  case Nil
  then show ?case by simp
next
  case (Cons a srcs)
  from copies_quiet_head [OF Cons.prems(1)] obtain f1 where
    r: "cp_one sys d a (ds, f) = (ds, f1)"
    and q: "fst (foldl (\<lambda>acc s. cp_one sys d s acc) (ds, f1) srcs) = ds"
    and step: "foldl (\<lambda>acc s. cp_one sys d s acc) (ds, f) (a # srcs)
             = foldl (\<lambda>acc s. cp_one sys d s acc) (ds, f1) srcs"
    by blast
  from Cons.prems(2) obtain b where b: "f a = Some (File b)" by (auto simp: is_file_iff)
  from Cons.prems(3) have "f (entry d a) = None \<or>
      (is_file f (entry d a) \<and> (\<forall>p. \<not> linked sys f p (entry d a)))" by auto
  from cp_one_plain [OF r b this] have f1: "f1 = f(entry d a \<mapsto> File b)" .
  have fresh: "entry d a \<notin> entry d ` set srcs" using Cons.prems(4) by auto
  have same: "\<forall>s\<in>set srcs. f1 s = f s" using Cons.prems(5) f1 by auto
  have 2: "\<forall>s\<in>set srcs. is_file f1 s"
    using Cons.prems(2) same by (auto simp: is_file_iff)
  have 3: "\<forall>s\<in>set srcs. f1 (entry d s) = None \<or>
           (is_file f1 (entry d s) \<and> (\<forall>g p. \<not> linked sys g p (entry d s)))"
  proof
    fix s assume s: "s \<in> set srcs"
    with fresh have "entry d s \<noteq> entry d a" by (metis imageI)
    then have "f1 (entry d s) = f (entry d s)" using f1 by simp
    with Cons.prems(3) s show "f1 (entry d s) = None \<or>
           (is_file f1 (entry d s) \<and> (\<forall>g p. \<not> linked sys g p (entry d s)))"
      by (auto simp: is_file_iff)
  qed
  have 4: "distinct (map (entry d) srcs)" using Cons.prems(4) by simp
  have 5: "\<forall>s\<in>set srcs. entry d s \<notin> set srcs" using Cons.prems(5) by auto
  note IH = Cons.IH [OF q 2 3 4 5]
  show ?case unfolding step
  proof (intro conjI ballI allI impI)
    fix s assume s: "s \<in> set (a # srcs)"
    show "snd (foldl (\<lambda>acc s. cp_one sys d s acc) (ds, f1) srcs) (entry d s) = f s"
    proof (cases "s \<in> set srcs")
      case True
      with IH have "snd (foldl (\<lambda>acc s. cp_one sys d s acc) (ds, f1) srcs) (entry d s) = f1 s"
        by blast
      with same True show ?thesis by simp
    next
      case False
      with s have sa: "s = a" by simp
      from IH fresh
      have "snd (foldl (\<lambda>acc s. cp_one sys d s acc) (ds, f1) srcs) (entry d a) = f1 (entry d a)"
        by blast
      with b sa f1 show ?thesis by simp
    qed
  next
    fix p assume "p \<notin> entry d ` set (a # srcs)"
    then have p: "p \<notin> entry d ` set srcs" "p \<noteq> entry d a" by auto
    from IH p(1) have "snd (foldl (\<lambda>acc s. cp_one sys d s acc) (ds, f1) srcs) p = f1 p"
      by blast
    with p(2) f1 show "snd (foldl (\<lambda>acc s. cp_one sys d s acc) (ds, f1) srcs) p = f p"
      by simp
  qed
qed

text \<open>On the system that refuses nothing and has no hard links, the plain copies report nothing.\<close>

lemma copies_obliging:
  assumes "\<forall>s\<in>set srcs. is_file f s"
    and "\<forall>s\<in>set srcs. free_or_file f (entry d s)"
    and "distinct (map (entry d) srcs)"
    and "\<forall>s\<in>set srcs. entry d s \<notin> set srcs"
  shows "fst (foldl (\<lambda>acc s. cp_one obliging d s acc) (ds, f) srcs) = ds"
  using assms
proof (induction srcs arbitrary: f)
  case Nil
  then show ?case by simp
next
  case (Cons a srcs)
  from Cons.prems(1) obtain b where b: "f a = Some (File b)" by (auto simp: is_file_iff)
  from Cons.prems(4) have ne: "entry d a \<noteq> a" by auto
  from Cons.prems(2) have "free_or_file f (entry d a)" by simp
  from cp_one_copies [OF b this ne]
  have r: "cp_one obliging d a (ds, f) = (ds, f(entry d a \<mapsto> File b))" .
  let ?f1 = "f(entry d a \<mapsto> File b)"
  have 1: "\<forall>s\<in>set srcs. is_file ?f1 s"
    using Cons.prems(1) by (auto simp: is_file_iff)
  have 2: "\<forall>s\<in>set srcs. free_or_file ?f1 (entry d s)"
    using Cons.prems(2) by (auto simp: free_or_file_iff)
  have 3: "distinct (map (entry d) srcs)" using Cons.prems(3) by simp
  have 4: "\<forall>s\<in>set srcs. entry d s \<notin> set srcs" using Cons.prems(4) by auto
  have step: "foldl (\<lambda>acc s. cp_one obliging d s acc) (ds, f) (a # srcs)
      = foldl (\<lambda>acc s. cp_one obliging d s acc) (ds, ?f1) srcs"
    using r by simp
  show ?case unfolding step by (rule Cons.IH [OF 1 2 3 4])
qed

lemma plain_obliging:
  assumes "\<forall>s\<in>set srcs. free_or_file f (entry d s)"
  shows "\<forall>s\<in>set srcs. f (entry d s) = None \<or>
           (is_file f (entry d s) \<and> (\<forall>g p. \<not> linked obliging g p (entry d s)))"
  using assms by (auto simp: free_or_file_iff is_file_iff obliging_linked)

section \<open>Paths\<close>

lemma basename_append: "CHR ''/'' \<in> set p \<Longrightarrow> basename (d @ p) = basename p"
  by (simp add: basename_def takeWhile_append1 [where x = "CHR ''/''"])




lemma entry_neq_dir: "entry d p \<noteq> d"
proof
  assume "entry d p = d"
  then have "length (entry d p) = length d" by simp
  then show False by (simp add: entry_def)
qed

lemmas path_defs =
  MP_DIR_def PORT_DIR_def BUILD_DIR_def BOARD_def frozen_content_def firmware_dir_def

lemma basename_artifacts:
  "map basename (artifacts ws) =
     [''bootloader.bin'', ''partition-table.bin'', ''ota_data_initial.bin'', ''micropython.bin'']"
proof -
  have "basename (ws @ ''/vendor/micropython/ports/esp32/build-ribbit/bootloader/bootloader.bin'')
      = ''bootloader.bin''"
    by (subst basename_append) (simp_all add: basename_def)
  moreover have "basename (ws @ ''/vendor/micropython/ports/esp32/build-ribbit/partition_table/partition-table.bin'')
      = ''partition-table.bin''"
    by (subst basename_append) (simp_all add: basename_def)
  moreover have "basename (ws @ ''/vendor/micropython/ports/esp32/build-ribbit/ota_data_initial.bin'')
      = ''ota_data_initial.bin''"
    by (subst basename_append) (simp_all add: basename_def)
  moreover have "basename (ws @ ''/vendor/micropython/ports/esp32/build-ribbit/micropython.bin'')
      = ''micropython.bin''"
    by (subst basename_append) (simp_all add: basename_def)
  ultimately show ?thesis by (simp add: artifacts_def path_defs)
qed

lemma entries_artifacts:
  "map (entry d) (artifacts ws) =
     [d @ ''/bootloader.bin'', d @ ''/partition-table.bin'',
      d @ ''/ota_data_initial.bin'', d @ ''/micropython.bin'']"
proof -
  have "map (entry d) (artifacts ws) = map (\<lambda>n. d @ ''/'' @ n) (map basename (artifacts ws))"
    by (simp add: entry_def)
  then show ?thesis by (simp add: basename_artifacts)
qed

lemma entries_artifacts_distinct: "distinct (map (entry d) (artifacts ws))"
  by (simp add: entries_artifacts)

lemma firmware_entries_no_artifact:
  "\<forall>s\<in>set (artifacts ws). entry (firmware_dir ws) s \<notin> set (artifacts ws)"
proof -
  have "set (map (entry (firmware_dir ws)) (artifacts ws)) \<inter> set (artifacts ws) = {}"
    unfolding entries_artifacts by (simp add: artifacts_def path_defs)
  then show ?thesis by auto
qed

section \<open>The bundling lines\<close>

lemma mkdir_p_free: "f d = None \<Longrightarrow> mkdir_p obliging d f = ([], f(d \<mapsto> Dir))"
  by (simp add: mkdir_p_def stat_None obliging_refuses)

lemma mkdir_p_dir: "f d = Some Dir \<Longrightarrow> mkdir_p sys d f = ([], f)"
  by (simp add: mkdir_p_def stat_Dir)

lemma mkdir_p_quiet:
  assumes "mkdir_p sys d f = ([], f')"
  shows "stat f' d = Some Dir \<and> (f' = f \<or> f d = None \<and> f' = f(d \<mapsto> Dir))"
  using assms
  by (auto simp: mkdir_p_def stat_Dir split: option.splits node.splits if_splits)

lemma mkdir_p_other: "p \<noteq> d \<Longrightarrow> snd (mkdir_p sys d f) p = f p"
  by (auto simp: mkdir_p_def split: option.splits node.splits)

lemma cp_dir:
  "stat f d = Some Dir \<Longrightarrow> cp sys srcs d f = foldl (\<lambda>acc src. cp_one sys d src acc) ([], f) srcs"
  by (simp add: cp_def)

lemma started_Cons:
  "started (run_recipe sys tc (c # cs) f) =
     (c, f) # (if fst (exec sys tc c f) = [] then started (run_recipe sys tc cs (snd (exec sys tc c f))) else [])"
  by (cases "exec sys tc c f"; cases "fst (exec sys tc c f)") (auto simp: Let_def split: list.splits)

lemma failed_Cons:
  "failed (run_recipe sys tc (c # cs) f) =
     (if fst (exec sys tc c f) = [] then failed (run_recipe sys tc cs (snd (exec sys tc c f)))
      else Some (c, fst (exec sys tc c f)))"
  by (cases "exec sys tc c f"; cases "fst (exec sys tc c f)") (auto simp: Let_def split: list.splits)

lemma final_Cons:
  "final (run_recipe sys tc (c # cs) f) =
     (if fst (exec sys tc c f) = [] then final (run_recipe sys tc cs (snd (exec sys tc c f)))
      else snd (exec sys tc c f))"
  by (cases "exec sys tc c f"; cases "fst (exec sys tc c f)") (auto simp: Let_def split: list.splits)

lemma run_recipe_Nil:
  "started (run_recipe sys tc [] f) = []" "failed (run_recipe sys tc [] f) = None"
  "final (run_recipe sys tc [] f) = f"
  by simp_all

lemma run_recipe_append:
  "failed (run_recipe sys tc (xs @ ys) f) =
     (case failed (run_recipe sys tc xs f) of
        None \<Rightarrow> failed (run_recipe sys tc ys (final (run_recipe sys tc xs f)))
      | Some e \<Rightarrow> Some e)"
  "final (run_recipe sys tc (xs @ ys) f) =
     (case failed (run_recipe sys tc xs f) of
        None \<Rightarrow> final (run_recipe sys tc ys (final (run_recipe sys tc xs f)))
      | Some e \<Rightarrow> final (run_recipe sys tc xs f))"
  "started (run_recipe sys tc (xs @ ys) f) =
     started (run_recipe sys tc xs f) @
     (case failed (run_recipe sys tc xs f) of
        None \<Rightarrow> started (run_recipe sys tc ys (final (run_recipe sys tc xs f)))
      | Some e \<Rightarrow> [])"
proof (induction xs arbitrary: f)
  case Nil
  { case 1 show ?case by simp }
  { case 2 show ?case by simp }
  { case 3 show ?case by simp }
next
  case (Cons c xs)
  { case 1 show ?case using Cons.IH(1) by (simp only: append_Cons failed_Cons final_Cons) simp }
  { case 2 show ?case using Cons.IH(2) by (simp only: append_Cons failed_Cons final_Cons) simp }
  { case 3 show ?case using Cons.IH(3)
      by (simp only: append_Cons failed_Cons final_Cons started_Cons) simp }
qed

text \<open>
  Where the bundling lines get to when they succeed: the copies started on the file
  system \<open>mkdir\<close> left, and reported nothing.
\<close>

lemma bundle_succeeded:
  assumes "failed (run_recipe sys tc (bundle_lines srcs d) f) = None"
  shows "\<exists>g. (g = f \<or> f d = None \<and> g = f(d \<mapsto> Dir)) \<and> stat g d = Some Dir \<and>
           fst (foldl (\<lambda>acc s. cp_one sys d s acc) ([], g) srcs) = [] \<and>
           final (run_recipe sys tc (bundle_lines srcs d) f) =
             snd (foldl (\<lambda>acc s. cp_one sys d s acc) ([], g) srcs)"
proof -
  let ?g = "snd (mkdir_p sys d f)"
  from assms have q: "fst (mkdir_p sys d f) = []"
    by (auto simp: bundle_lines_def failed_Cons simp del: run_recipe.simps split: if_splits)
  then have m: "mkdir_p sys d f = ([], ?g)" by (simp add: prod_eq_iff)
  from mkdir_p_quiet [OF m] have g: "stat ?g d = Some Dir"
    "?g = f \<or> f d = None \<and> ?g = f(d \<mapsto> Dir)" by blast+
  have e: "exec sys tc (Mkdir_p d) f = ([], ?g)" using m by simp
  have c: "exec sys tc (Cp srcs d) ?g = foldl (\<lambda>acc s. cp_one sys d s acc) ([], ?g) srcs"
    using g(1) by (simp add: cp_dir)
  from assms have "fst (foldl (\<lambda>acc s. cp_one sys d s acc) ([], ?g) srcs) = []"
    by (simp add: bundle_lines_def failed_Cons run_recipe_Nil e c
        del: exec.simps run_recipe.simps split: if_splits)
  moreover have "final (run_recipe sys tc (bundle_lines srcs d) f) =
      snd (foldl (\<lambda>acc s. cp_one sys d s acc) ([], ?g) srcs)"
    by (simp add: bundle_lines_def final_Cons run_recipe_Nil e c
        del: exec.simps run_recipe.simps)
  ultimately show ?thesis using g by blast
qed

text \<open>
  The plain case of bundling: a complete set of regular files, a directory that is free
  or there, entries that are free or regular files with no other name. When the lines
  succeed, the directory is there, every entry holds the bytes of its source and nothing
  else has changed.
\<close>

lemma bundle_plain:
  assumes "failed (run_recipe sys tc (bundle_lines srcs d) f) = None"
    and "free_or_dir f d"
    and "\<forall>s\<in>set srcs. is_file f s"
    and "\<forall>s\<in>set srcs. f (entry d s) = None \<or>
           (is_file f (entry d s) \<and> (\<forall>g p. \<not> linked sys g p (entry d s)))"
    and "distinct (map (entry d) srcs)"
    and "\<forall>s\<in>set srcs. entry d s \<notin> set srcs"
  shows "final (run_recipe sys tc (bundle_lines srcs d) f) d = Some Dir \<and>
         (\<forall>s\<in>set srcs. final (run_recipe sys tc (bundle_lines srcs d) f) (entry d s) = f s) \<and>
         (\<forall>p. p \<noteq> d \<and> p \<notin> entry d ` set srcs \<longrightarrow>
            final (run_recipe sys tc (bundle_lines srcs d) f) p = f p)"
proof -
  from bundle_succeeded [OF assms(1)] obtain g where
    g: "g = f \<or> f d = None \<and> g = f(d \<mapsto> Dir)" and st: "stat g d = Some Dir"
    and q: "fst (foldl (\<lambda>acc s. cp_one sys d s acc) ([], g) srcs) = []"
    and fn: "final (run_recipe sys tc (bundle_lines srcs d) f) =
             snd (foldl (\<lambda>acc s. cp_one sys d s acc) ([], g) srcs)"
    by blast
  have gd: "g d = Some Dir"
    using g st assms(2) by (auto simp: free_or_dir_iff stat_None)
  have same: "\<forall>p. p \<noteq> d \<longrightarrow> g p = f p" using g by auto
  have nd: "\<forall>s\<in>set srcs. s \<noteq> d"
    using assms(2,3) by (auto simp: is_file_iff free_or_dir_iff)
  have 1: "\<forall>s\<in>set srcs. is_file g s" using assms(3) same nd by (auto simp: is_file_iff)
  have 2: "\<forall>s\<in>set srcs. g (entry d s) = None \<or>
           (is_file g (entry d s) \<and> (\<forall>g p. \<not> linked sys g p (entry d s)))"
    using assms(4) same by (auto simp: is_file_iff entry_neq_dir)
  note P = copies_plain [OF q 1 2 assms(5,6)]
  have dd: "d \<notin> entry d ` set srcs" using entry_neq_dir [of d] by (auto dest: sym)
  show ?thesis
  proof (intro conjI ballI allI impI)
    show "final (run_recipe sys tc (bundle_lines srcs d) f) d = Some Dir"
      using P dd gd unfolding fn by metis
  next
    fix s assume s: "s \<in> set srcs"
    with P have "snd (foldl (\<lambda>acc s. cp_one sys d s acc) ([], g) srcs) (entry d s) = g s" by blast
    with same nd s show "final (run_recipe sys tc (bundle_lines srcs d) f) (entry d s) = f s"
      unfolding fn by simp
  next
    fix p assume p: "p \<noteq> d \<and> p \<notin> entry d ` set srcs"
    with P have "snd (foldl (\<lambda>acc s. cp_one sys d s acc) ([], g) srcs) p = g p" by blast
    with same p show "final (run_recipe sys tc (bundle_lines srcs d) f) p = f p"
      unfolding fn by simp
  qed
qed

text \<open>
  On the system that refuses nothing, with a directory that is free or there: the copies
  start on the file system \<open>mkdir\<close> leaves.
\<close>

lemma bundle_unfold:
  assumes "free_or_dir f d"
  shows "\<exists>g. (g = f \<or> f d = None \<and> g = f(d \<mapsto> Dir)) \<and> g d = Some Dir \<and>
           started (run_recipe obliging tc (bundle_lines srcs d) f)
             = [(Mkdir_p d, f), (Cp srcs d, g)] \<and>
           failed (run_recipe obliging tc (bundle_lines srcs d) f) =
             (if fst (foldl (\<lambda>acc s. cp_one obliging d s acc) ([], g) srcs) = [] then None
              else Some (Cp srcs d, fst (foldl (\<lambda>acc s. cp_one obliging d s acc) ([], g) srcs))) \<and>
           final (run_recipe obliging tc (bundle_lines srcs d) f) =
             snd (foldl (\<lambda>acc s. cp_one obliging d s acc) ([], g) srcs)"
proof (cases "f d")
  case None
  let ?g = "f(d \<mapsto> Dir)"
  have m: "exec obliging tc (Mkdir_p d) f = ([], ?g)" using None by (simp add: mkdir_p_free)
  have c: "exec obliging tc (Cp srcs d) ?g = foldl (\<lambda>acc s. cp_one obliging d s acc) ([], ?g) srcs"
    by (simp add: cp_dir stat_Dir)
  show ?thesis
    by (rule exI [of _ ?g])
      (simp add: bundle_lines_def started_Cons failed_Cons final_Cons run_recipe_Nil m c None
        del: exec.simps run_recipe.simps)
next
  case (Some n)
  with assms have d: "f d = Some Dir" by (auto simp: free_or_dir_iff)
  have m: "exec obliging tc (Mkdir_p d) f = ([], f)" using d by (simp add: mkdir_p_dir)
  have c: "exec obliging tc (Cp srcs d) f = foldl (\<lambda>acc s. cp_one obliging d s acc) ([], f) srcs"
    using d by (simp add: cp_dir stat_Dir)
  show ?thesis
    by (rule exI [of _ f])
      (simp add: bundle_lines_def started_Cons failed_Cons final_Cons run_recipe_Nil m c d
        del: exec.simps run_recipe.simps)
qed

text \<open>On that system the plain case of bundling succeeds.\<close>

lemma bundle_obliging:
  assumes "free_or_dir f d"
    and "\<forall>s\<in>set srcs. is_file f s"
    and "\<forall>s\<in>set srcs. free_or_file f (entry d s)"
    and "distinct (map (entry d) srcs)"
    and "\<forall>s\<in>set srcs. entry d s \<notin> set srcs"
  shows "failed (run_recipe obliging tc (bundle_lines srcs d) f) = None"
proof -
  from bundle_unfold [OF assms(1), of tc srcs] obtain g where
    g: "g = f \<or> f d = None \<and> g = f(d \<mapsto> Dir)" "g d = Some Dir"
    and fl: "failed (run_recipe obliging tc (bundle_lines srcs d) f) =
             (if fst (foldl (\<lambda>acc s. cp_one obliging d s acc) ([], g) srcs) = [] then None
              else Some (Cp srcs d, fst (foldl (\<lambda>acc s. cp_one obliging d s acc) ([], g) srcs)))"
    by blast
  have same: "\<forall>p. p \<noteq> d \<longrightarrow> g p = f p" using g(1) by auto
  have nd: "\<forall>s\<in>set srcs. s \<noteq> d"
    using assms(1,2) by (auto simp: is_file_iff free_or_dir_iff)
  have 1: "\<forall>s\<in>set srcs. is_file g s" using assms(2) same nd by (auto simp: is_file_iff)
  have 2: "\<forall>s\<in>set srcs. free_or_file g (entry d s)"
    using assms(3) same by (auto simp: free_or_file_iff entry_neq_dir)
  from copies_obliging [OF 1 2 assms(4,5), of "[]"] fl show ?thesis by simp
qed

section \<open>Properties of bundling\<close>












text \<open>Bundling the images into the firmware directory, in the plain case.\<close>

lemma bundle_firmware:
  assumes "failed (run_recipe sys tc (bundle_lines (artifacts ws) (firmware_dir ws)) f) = None"
    and "\<forall>s\<in>set (artifacts ws). is_file f s"
    and "free_or_dir f (firmware_dir ws)"
    and "\<forall>s\<in>set (artifacts ws). f (entry (firmware_dir ws) s) = None \<or>
           (is_file f (entry (firmware_dir ws) s) \<and>
            (\<forall>g p. \<not> linked sys g p (entry (firmware_dir ws) s)))"
  shows "map (final (run_recipe sys tc (bundle_lines (artifacts ws) (firmware_dir ws)) f))
           [firmware_dir ws @ ''/bootloader.bin'', firmware_dir ws @ ''/partition-table.bin'',
            firmware_dir ws @ ''/ota_data_initial.bin'', firmware_dir ws @ ''/micropython.bin'']
           = map f (artifacts ws) \<and>
         map (final (run_recipe sys tc (bundle_lines (artifacts ws) (firmware_dir ws)) f))
           [firmware_dir ws @ ''/bootloader'', firmware_dir ws @ ''/partition-table'',
            firmware_dir ws @ ''/ota-init-data'', firmware_dir ws @ ''/application-image'']
           = map f
           [firmware_dir ws @ ''/bootloader'', firmware_dir ws @ ''/partition-table'',
            firmware_dir ws @ ''/ota-init-data'', firmware_dir ws @ ''/application-image'']"
proof -
  let ?r = "run_recipe sys tc (bundle_lines (artifacts ws) (firmware_dir ws)) f"
  note P = bundle_plain [OF assms(1) assms(3) assms(2) assms(4) entries_artifacts_distinct
      firmware_entries_no_artifact]
  from P have "\<forall>s\<in>set (artifacts ws). final ?r (entry (firmware_dir ws) s) = f s" by blast
  then have "map (final ?r) (map (entry (firmware_dir ws)) (artifacts ws)) = map f (artifacts ws)"
    by simp
  then have copies: "map (final ?r)
           [firmware_dir ws @ ''/bootloader.bin'', firmware_dir ws @ ''/partition-table.bin'',
            firmware_dir ws @ ''/ota_data_initial.bin'', firmware_dir ws @ ''/micropython.bin'']
           = map f (artifacts ws)"
    by (simp only: entries_artifacts)
  have out: "p \<noteq> firmware_dir ws \<and> p \<notin> entry (firmware_dir ws) ` set (artifacts ws)"
    if "p \<in> {firmware_dir ws @ ''/bootloader'', firmware_dir ws @ ''/partition-table'',
            firmware_dir ws @ ''/ota-init-data'', firmware_dir ws @ ''/application-image''}" for p
  proof -
    have "entry (firmware_dir ws) ` set (artifacts ws) = set (map (entry (firmware_dir ws)) (artifacts ws))"
      by simp
    with that show ?thesis unfolding entries_artifacts by auto
  qed
  from P have fr: "\<forall>p. p \<noteq> firmware_dir ws \<and> p \<notin> entry (firmware_dir ws) ` set (artifacts ws)
      \<longrightarrow> final ?r p = f p" by blast
  have "final ?r p = f p"
    if "p \<in> {firmware_dir ws @ ''/bootloader'', firmware_dir ws @ ''/partition-table'',
            firmware_dir ws @ ''/ota-init-data'', firmware_dir ws @ ''/application-image''}" for p
    using fr out [OF that] by blast
  then have logical: "map (final ?r)
           [firmware_dir ws @ ''/bootloader'', firmware_dir ws @ ''/partition-table'',
            firmware_dir ws @ ''/ota-init-data'', firmware_dir ws @ ''/application-image'']
           = map f
           [firmware_dir ws @ ''/bootloader'', firmware_dir ws @ ''/partition-table'',
            firmware_dir ws @ ''/ota-init-data'', firmware_dir ws @ ''/application-image'']"
    by simp
  from copies logical show ?thesis by blast
qed

text \<open>The same on the system that refuses nothing, where the plain case succeeds.\<close>

lemma bundle_firmware_obliging:
  assumes "\<forall>s\<in>set (artifacts ws). is_file f s"
    and "free_or_dir f (firmware_dir ws)"
    and "\<forall>s\<in>set (artifacts ws). free_or_file f (entry (firmware_dir ws) s)"
  shows "failed (run_recipe obliging tc (bundle_lines (artifacts ws) (firmware_dir ws)) f) = None \<and>
         map (final (run_recipe obliging tc (bundle_lines (artifacts ws) (firmware_dir ws)) f))
           [firmware_dir ws @ ''/bootloader.bin'', firmware_dir ws @ ''/partition-table.bin'',
            firmware_dir ws @ ''/ota_data_initial.bin'', firmware_dir ws @ ''/micropython.bin'']
           = map f (artifacts ws) \<and>
         map (final (run_recipe obliging tc (bundle_lines (artifacts ws) (firmware_dir ws)) f))
           [firmware_dir ws @ ''/bootloader'', firmware_dir ws @ ''/partition-table'',
            firmware_dir ws @ ''/ota-init-data'', firmware_dir ws @ ''/application-image'']
           = map f
           [firmware_dir ws @ ''/bootloader'', firmware_dir ws @ ''/partition-table'',
            firmware_dir ws @ ''/ota-init-data'', firmware_dir ws @ ''/application-image'']"
proof -
  have ok: "failed (run_recipe obliging tc (bundle_lines (artifacts ws) (firmware_dir ws)) f) = None"
    by (rule bundle_obliging [OF assms(2) assms(1) assms(3) entries_artifacts_distinct
        firmware_entries_no_artifact])
  from bundle_firmware [OF ok assms(1) assms(2) plain_obliging [OF assms(3)]] ok
  show ?thesis by blast
qed



















section \<open>Properties of the build\<close>

lemma rm_f_quiet: "fst (rm_f sys p f) = [] \<Longrightarrow> snd (rm_f sys p f) p = None"
  by (auto simp: rm_f_def split: option.splits node.splits if_splits)

lemma ln_sfn_other: "p \<noteq> l \<Longrightarrow> p \<noteq> entry l t \<Longrightarrow> snd (ln_sfn sys t l f) p = f p"
  by (auto simp: ln_sfn_def Let_def split: option.splits node.splits)

lemma started_commands: "(c, g) \<in> set (started (run_recipe sys tc cs f)) \<Longrightarrow> c \<in> set cs"
proof (induction cs arbitrary: f)
  case Nil
  then show ?case by simp
next
  case (Cons a cs)
  from Cons.prems have "(c, g) = (a, f) \<or>
      (c, g) \<in> set (started (run_recipe sys tc cs (snd (exec sys tc a f))))"
    by (simp only: started_Cons) (auto split: if_splits)
  with Cons.IH show ?case by auto
qed

text \<open>The link the recipe makes is no path of the frozen content.\<close>

lemma frozen_content_no_link:
  "frozen_content ws \<noteq> PORT_DIR ws @ ''/boards/ribbit''"
  "frozen_content ws \<noteq> entry (PORT_DIR ws @ ''/boards/ribbit'') (ws @ ''/board'')"
proof -
  show "frozen_content ws \<noteq> PORT_DIR ws @ ''/boards/ribbit''"
    by (simp add: path_defs)
  have "basename (ws @ ''/board'') = ''board''"
    by (subst basename_append) (simp_all add: basename_def)
  then show "frozen_content ws \<noteq> entry (PORT_DIR ws @ ''/boards/ribbit'') (ws @ ''/board'')"
    by (simp add: entry_def path_defs)
qed

text \<open>The lines of the recipe that were started, as far as the toolchain.\<close>

lemma compile_started:
  "started (run_recipe sys tc (compile_lines ws) f) =
     (Rm_f (frozen_content ws), f) #
     (if fst (rm_f sys (frozen_content ws) f) = [] then
        (Ln_sfn (ws @ ''/board'') (PORT_DIR ws @ ''/boards/ribbit''), snd (rm_f sys (frozen_content ws) f)) #
        (if fst (ln_sfn sys (ws @ ''/board'') (PORT_DIR ws @ ''/boards/ribbit'')
                  (snd (rm_f sys (frozen_content ws) f))) = [] then
           [(Make_C (PORT_DIR ws) [(''BOARD'', BOARD), (''FROZEN_MANIFEST'', ws @ ''/manifest.py'')],
             snd (ln_sfn sys (ws @ ''/board'') (PORT_DIR ws @ ''/boards/ribbit'')
                  (snd (rm_f sys (frozen_content ws) f))))]
         else [])
      else [])"
  by (simp add: compile_lines_def started_Cons run_recipe_Nil del: run_recipe.simps)

lemma bundle_lines_no_make: "Make_C d vars \<notin> set (bundle_lines srcs dst)"
  by (simp add: bundle_lines_def)

lemma build_started:
  "started (build sys tc ws f) =
     started (run_recipe sys tc (compile_lines ws) f) @
     (case failed (run_recipe sys tc (compile_lines ws) f) of
        None \<Rightarrow> started (run_recipe sys tc (bundle_lines (artifacts ws) (firmware_dir ws))
                  (final (run_recipe sys tc (compile_lines ws) f)))
      | Some e \<Rightarrow> [])"
  by (simp add: build_def build_recipe_def run_recipe_append)

text \<open>
  Claim C5. Whenever the build starts the toolchain, it starts it on a file system in
  which nothing is at the path of the frozen content: the stale file of an earlier run
  has been removed, and when it cannot be removed the toolchain is not started at all.
\<close>

theorem toolchain_after_cleanup:
  assumes "(Make_C d vars, g) \<in> set (started (build sys tc ws f))"
  shows "g (frozen_content ws) = None"
proof -
  let ?f1 = "snd (rm_f sys (frozen_content ws) f)"
  let ?f2 = "snd (ln_sfn sys (ws @ ''/board'') (PORT_DIR ws @ ''/boards/ribbit'') ?f1)"
  have "(Make_C d vars, g) \<notin> set (case failed (run_recipe sys tc (compile_lines ws) f) of
        None \<Rightarrow> started (run_recipe sys tc (bundle_lines (artifacts ws) (firmware_dir ws))
                  (final (run_recipe sys tc (compile_lines ws) f)))
      | Some e \<Rightarrow> [])"
    using started_commands [of "Make_C d vars" g sys tc "bundle_lines (artifacts ws) (firmware_dir ws)"]
      bundle_lines_no_make [of d vars "artifacts ws" "firmware_dir ws"]
    by (auto split: option.splits)
  with assms have "(Make_C d vars, g) \<in> set (started (run_recipe sys tc (compile_lines ws) f))"
    unfolding build_started by (cases "failed (run_recipe sys tc (compile_lines ws) f)") auto
  then have q: "fst (rm_f sys (frozen_content ws) f) = []" and g: "g = ?f2"
    by (auto simp: compile_started split: if_splits)
  from rm_f_quiet [OF q] have "?f1 (frozen_content ws) = None" .
  then have "?f2 (frozen_content ws) = None"
    by (simp add: ln_sfn_other frozen_content_no_link)
  with g show ?thesis by simp
qed

lemma rm_f_leftover:
  "rm_f obliging (frozen_content ws) (leftover ws) = ([], (leftover ws)(frozen_content ws := None))"
  by (simp add: rm_f_def leftover_def obliging_refuses)

lemma ln_sfn_free: "f l = None \<Longrightarrow> ln_sfn obliging t l f = ([], f(l \<mapsto> Symlink t))"
  by (simp add: ln_sfn_def obliging_refuses)

lemma leftover_started:
  "(Make_C (PORT_DIR ws) [(''BOARD'', BOARD), (''FROZEN_MANIFEST'', ws @ ''/manifest.py'')],
    (leftover ws)(frozen_content ws := None,
                  PORT_DIR ws @ ''/boards/ribbit'' \<mapsto> Symlink (ws @ ''/board'')))
   \<in> set (started (build obliging tc ws (leftover ws)))"
proof -
  have "((leftover ws)(frozen_content ws := None)) (PORT_DIR ws @ ''/boards/ribbit'') = None"
    using frozen_content_no_link(1) [of ws] by (simp add: leftover_def)
  then have "ln_sfn obliging (ws @ ''/board'') (PORT_DIR ws @ ''/boards/ribbit'')
      ((leftover ws)(frozen_content ws := None))
    = ([], (leftover ws)(frozen_content ws := None,
        PORT_DIR ws @ ''/boards/ribbit'' \<mapsto> Symlink (ws @ ''/board'')))"
    by (rule ln_sfn_free)
  then show ?thesis
    by (simp add: build_started compile_started rm_f_leftover)
qed

theorem toolchain_after_cleanup_witness:
  "(Make_C (PORT_DIR ''/app'') [(''BOARD'', BOARD), (''FROZEN_MANIFEST'', ''/app'' @ ''/manifest.py'')],
    (leftover ''/app'')(frozen_content ''/app'' := None,
                  PORT_DIR ''/app'' @ ''/boards/ribbit'' \<mapsto> Symlink (''/app'' @ ''/board'')))
   \<in> set (started (build obliging sample_toolchain ''/app'' (leftover ''/app''))) \<and>
   leftover ''/app'' (frozen_content ''/app'') = Some (File [7]) \<and>
   ((leftover ''/app'')(frozen_content ''/app'' := None,
                  PORT_DIR ''/app'' @ ''/boards/ribbit'' \<mapsto> Symlink (''/app'' @ ''/board'')))
     (frozen_content ''/app'') = None"
proof -
  note m = leftover_started [of "''/app''" sample_toolchain]
  have "leftover ''/app'' (frozen_content ''/app'') = Some (File [7])"
    by (simp add: leftover_def)
  with m toolchain_after_cleanup [OF m] show ?thesis by blast
qed

text \<open>The build from the toolchain on, when the first two lines have nothing in their way.\<close>

lemma build_clean:
  assumes "f (frozen_content ws) = None"
    and "f (PORT_DIR ws @ ''/boards/ribbit'') = None"
    and "tc (PORT_DIR ws) [(''BOARD'', BOARD), (''FROZEN_MANIFEST'', ws @ ''/manifest.py'')]
           (f(PORT_DIR ws @ ''/boards/ribbit'' \<mapsto> Symlink (ws @ ''/board''))) = (0, h)"
  shows "failed (build obliging tc ws f)
           = failed (run_recipe obliging tc (bundle_lines (artifacts ws) (firmware_dir ws)) h)"
    and "final (build obliging tc ws f)
           = final (run_recipe obliging tc (bundle_lines (artifacts ws) (firmware_dir ws)) h)"
    and "started (build obliging tc ws f) =
           [(Rm_f (frozen_content ws), f),
            (Ln_sfn (ws @ ''/board'') (PORT_DIR ws @ ''/boards/ribbit''), f),
            (Make_C (PORT_DIR ws) [(''BOARD'', BOARD), (''FROZEN_MANIFEST'', ws @ ''/manifest.py'')],
             f(PORT_DIR ws @ ''/boards/ribbit'' \<mapsto> Symlink (ws @ ''/board'')))] @
           started (run_recipe obliging tc (bundle_lines (artifacts ws) (firmware_dir ws)) h)"
proof -
  have rm: "rm_f obliging (frozen_content ws) f = ([], f)" using assms(1) by (simp add: rm_f_def)
  have ln: "ln_sfn obliging (ws @ ''/board'') (PORT_DIR ws @ ''/boards/ribbit'') f
      = ([], f(PORT_DIR ws @ ''/boards/ribbit'' \<mapsto> Symlink (ws @ ''/board'')))"
    using assms(2) by (simp add: ln_sfn_free)
  have c: "failed (run_recipe obliging tc (compile_lines ws) f) = None"
    "final (run_recipe obliging tc (compile_lines ws) f) = h"
    by (simp_all add: compile_lines_def failed_Cons final_Cons run_recipe_Nil rm ln assms(3)
        del: run_recipe.simps)
  show "failed (build obliging tc ws f)
           = failed (run_recipe obliging tc (bundle_lines (artifacts ws) (firmware_dir ws)) h)"
    by (simp add: build_def build_recipe_def run_recipe_append c)
  show "final (build obliging tc ws f)
           = final (run_recipe obliging tc (bundle_lines (artifacts ws) (firmware_dir ws)) h)"
    by (simp add: build_def build_recipe_def run_recipe_append c)
  show "started (build obliging tc ws f) =
           [(Rm_f (frozen_content ws), f),
            (Ln_sfn (ws @ ''/board'') (PORT_DIR ws @ ''/boards/ribbit''), f),
            (Make_C (PORT_DIR ws) [(''BOARD'', BOARD), (''FROZEN_MANIFEST'', ws @ ''/manifest.py'')],
             f(PORT_DIR ws @ ''/boards/ribbit'' \<mapsto> Symlink (ws @ ''/board'')))] @
           started (run_recipe obliging tc (bundle_lines (artifacts ws) (firmware_dir ws)) h)"
    by (simp add: build_started compile_started c rm ln)
qed

text \<open>Where the build is when its copies start.\<close>

lemma build_at_cp:
  assumes "(Cp (artifacts ws) (firmware_dir ws), g) \<in> set (started (build sys tc ws f))"
  shows "failed (build sys tc ws f) =
           (if fst (foldl (\<lambda>acc s. cp_one sys (firmware_dir ws) s acc) ([], g) (artifacts ws)) = []
            then None
            else Some (Cp (artifacts ws) (firmware_dir ws),
              fst (foldl (\<lambda>acc s. cp_one sys (firmware_dir ws) s acc) ([], g) (artifacts ws))))"
    and "final (build sys tc ws f)
           = snd (foldl (\<lambda>acc s. cp_one sys (firmware_dir ws) s acc) ([], g) (artifacts ws))"
proof -
  let ?c = "run_recipe sys tc (compile_lines ws) f"
  let ?d = "firmware_dir ws"
  have "Cp (artifacts ws) ?d \<notin> set (compile_lines ws)" by (simp add: compile_lines_def)
  then have "(Cp (artifacts ws) ?d, g) \<notin> set (started ?c)"
    using started_commands by blast
  with assms have ok: "failed ?c = None"
    and m: "(Cp (artifacts ws) ?d, g)
      \<in> set (started (run_recipe sys tc (bundle_lines (artifacts ws) ?d) (final ?c)))"
    unfolding build_started by (cases "failed ?c"; auto)+
  from m have q: "fst (mkdir_p sys ?d (final ?c)) = []" and g: "g = snd (mkdir_p sys ?d (final ?c))"
    by (auto simp: bundle_lines_def started_Cons run_recipe_Nil simp del: run_recipe.simps
        split: if_splits)
  from q g have "mkdir_p sys ?d (final ?c) = ([], g)" by (simp add: prod_eq_iff)
  from mkdir_p_quiet [OF this] have d: "stat g ?d = Some Dir" by blast
  have e: "exec sys tc (Mkdir_p ?d) (final ?c) = ([], g)" using q g by (simp add: prod_eq_iff)
  have c: "exec sys tc (Cp (artifacts ws) ?d) g
      = foldl (\<lambda>acc s. cp_one sys ?d s acc) ([], g) (artifacts ws)"
    using d by (simp add: cp_dir)
  show "failed (build sys tc ws f) =
           (if fst (foldl (\<lambda>acc s. cp_one sys ?d s acc) ([], g) (artifacts ws)) = []
            then None
            else Some (Cp (artifacts ws) ?d,
              fst (foldl (\<lambda>acc s. cp_one sys ?d s acc) ([], g) (artifacts ws))))"
    by (simp add: build_def build_recipe_def run_recipe_append ok bundle_lines_def
        failed_Cons run_recipe_Nil e c del: run_recipe.simps exec.simps)
  show "final (build sys tc ws f)
           = snd (foldl (\<lambda>acc s. cp_one sys ?d s acc) ([], g) (artifacts ws))"
    by (simp add: build_def build_recipe_def run_recipe_append ok bundle_lines_def
        final_Cons run_recipe_Nil e c del: run_recipe.simps exec.simps)
qed

lemma build_reaches_cp:
  assumes "failed (build sys tc ws f) = None"
  shows "\<exists>g. (Cp (artifacts ws) (firmware_dir ws), g) \<in> set (started (build sys tc ws f))"
proof -
  let ?c = "run_recipe sys tc (compile_lines ws) f"
  from assms have ok: "failed ?c = None"
    and b: "failed (run_recipe sys tc (bundle_lines (artifacts ws) (firmware_dir ws)) (final ?c)) = None"
    by (auto simp: build_def build_recipe_def run_recipe_append split: option.splits)
  from b have "fst (mkdir_p sys (firmware_dir ws) (final ?c)) = []"
    by (auto simp: bundle_lines_def failed_Cons simp del: run_recipe.simps split: if_splits)
  then have "(Cp (artifacts ws) (firmware_dir ws), snd (mkdir_p sys (firmware_dir ws) (final ?c)))
      \<in> set (started (build sys tc ws f))"
    by (simp add: build_started ok bundle_lines_def started_Cons del: run_recipe.simps)
  then show ?thesis by blast
qed

text \<open>
  Claim C4, as the recipe has it. After a build that succeeded each of the four images
  leads to a regular file, in the build directory and in the firmware directory; and a
  build whose copies start with nothing at the path of one of the images fails. What
  the files hold is not looked at.
\<close>

theorem build_checks_presence:
  "(failed (build sys tc ws f) = None \<longrightarrow>
      list_all (\<lambda>a. (\<exists>b. stat (final (build sys tc ws f)) a = Some (File b)) \<and>
                    (\<exists>b. stat (final (build sys tc ws f)) (entry (firmware_dir ws) a) = Some (File b)))
        (artifacts ws)) \<and>
   ((Cp (artifacts ws) (firmware_dir ws), g) \<in> set (started (build sys tc ws f)) \<and>
      a \<in> set (artifacts ws) \<and> g a = None \<longrightarrow> failed (build sys tc ws f) \<noteq> None)"
proof (intro conjI impI)
  assume ok: "failed (build sys tc ws f) = None"
  from build_reaches_cp [OF ok] obtain g' where
    m: "(Cp (artifacts ws) (firmware_dir ws), g') \<in> set (started (build sys tc ws f))" by blast
  let ?F = "foldl (\<lambda>acc s. cp_one sys (firmware_dir ws) s acc) ([], g') (artifacts ws)"
  from build_at_cp [OF m] ok have q: "fst ?F = []" and fin: "final (build sys tc ws f) = snd ?F"
    by (auto split: if_splits)
  show "list_all (\<lambda>a. (\<exists>b. stat (final (build sys tc ws f)) a = Some (File b)) \<and>
                    (\<exists>b. stat (final (build sys tc ws f)) (entry (firmware_dir ws) a) = Some (File b)))
        (artifacts ws)"
    unfolding list_all_iff fin
    using copies_quiet [OF q] copies_quiet_sources [OF q] by blast
next
  assume h: "(Cp (artifacts ws) (firmware_dir ws), g) \<in> set (started (build sys tc ws f)) \<and>
      a \<in> set (artifacts ws) \<and> g a = None"
  then have m: "(Cp (artifacts ws) (firmware_dir ws), g) \<in> set (started (build sys tc ws f))"
    and a: "a \<in> set (artifacts ws)" and ga: "g a = None" by blast+
  have "\<forall>s\<in>set (artifacts ws). entry (firmware_dir ws) s \<noteq> a"
    using firmware_entries_no_artifact [of ws] a by auto
  from copies_report_missing [where f = g and src = a and srcs = "artifacts ws"
      and d = "firmware_dir ws" and ds = "[]" and sys = sys, OF ga a this]
  have "fst (foldl (\<lambda>acc s. cp_one sys (firmware_dir ws) s acc) ([], g) (artifacts ws)) \<noteq> []"
    by auto
  with build_at_cp(1) [OF m] show "failed (build sys tc ws f) \<noteq> None" by simp
qed

lemma bundle_started:
  assumes "h d = None"
  shows "(Cp srcs d, h(d \<mapsto> Dir)) \<in> set (started (run_recipe obliging tc (bundle_lines srcs d) h))"
proof -
  from assms have "free_or_dir h d" by (simp add: free_or_dir_def)
  from bundle_unfold [OF this, of tc srcs] assms show ?thesis by auto
qed

text \<open>The build on the empty file system, with a toolchain that succeeds.\<close>

lemma build_empty:
  assumes "tc (PORT_DIR ws) [(''BOARD'', BOARD), (''FROZEN_MANIFEST'', ws @ ''/manifest.py'')]
           ((\<lambda>p. None)(PORT_DIR ws @ ''/boards/ribbit'' \<mapsto> Symlink (ws @ ''/board''))) = (0, h)"
  shows "failed (build obliging tc ws (\<lambda>p. None))
           = failed (run_recipe obliging tc (bundle_lines (artifacts ws) (firmware_dir ws)) h)"
    and "final (build obliging tc ws (\<lambda>p. None))
           = final (run_recipe obliging tc (bundle_lines (artifacts ws) (firmware_dir ws)) h)"
    and "set (started (run_recipe obliging tc (bundle_lines (artifacts ws) (firmware_dir ws)) h))
           \<subseteq> set (started (build obliging tc ws (\<lambda>p. None)))"
proof -
  have 1: "(\<lambda>p. None :: node option) (frozen_content ws) = None" by simp
  have 2: "(\<lambda>p. None :: node option) (PORT_DIR ws @ ''/boards/ribbit'') = None" by simp
  note B = build_clean [of "\<lambda>p. None" ws tc h, OF 1 2 assms]
  show "failed (build obliging tc ws (\<lambda>p. None))
           = failed (run_recipe obliging tc (bundle_lines (artifacts ws) (firmware_dir ws)) h)"
    by (rule B(1))
  show "final (build obliging tc ws (\<lambda>p. None))
           = final (run_recipe obliging tc (bundle_lines (artifacts ws) (firmware_dir ws)) h)"
    by (rule B(2))
  show "set (started (run_recipe obliging tc (bundle_lines (artifacts ws) (firmware_dir ws)) h))
           \<subseteq> set (started (build obliging tc ws (\<lambda>p. None)))"
    unfolding B(3) by auto
qed

text \<open>What the sample toolchains leave on the empty file system.\<close>

lemma sample_leaves:
  "sample_toolchain (PORT_DIR ws) vars
     ((\<lambda>p. None)(PORT_DIR ws @ ''/boards/ribbit'' \<mapsto> Symlink (ws @ ''/board'')))
   = (0, (built ws)(PORT_DIR ws @ ''/boards/ribbit'' \<mapsto> Symlink (ws @ ''/board'')))"
  by (simp add: sample_toolchain_def built_def path_defs fun_eq_iff)

lemma built_linked:
  "\<forall>s\<in>set (artifacts ws).
     is_file ((built ws)(PORT_DIR ws @ ''/boards/ribbit'' \<mapsto> Symlink (ws @ ''/board''))) s"
  "free_or_dir ((built ws)(PORT_DIR ws @ ''/boards/ribbit'' \<mapsto> Symlink (ws @ ''/board'')))
     (firmware_dir ws)"
  "\<forall>s\<in>set (artifacts ws).
     free_or_file ((built ws)(PORT_DIR ws @ ''/boards/ribbit'' \<mapsto> Symlink (ws @ ''/board'')))
       (entry (firmware_dir ws) s)"
  "map ((built ws)(PORT_DIR ws @ ''/boards/ribbit'' \<mapsto> Symlink (ws @ ''/board'')))
     (artifacts ws) = [Some (File [1]), Some (File [2]), Some (File [3]), Some (File [4])]"
proof -
  show "\<forall>s\<in>set (artifacts ws).
     is_file ((built ws)(PORT_DIR ws @ ''/boards/ribbit'' \<mapsto> Symlink (ws @ ''/board''))) s"
    by (simp add: built_def artifacts_def path_defs is_file_def)
  show "free_or_dir ((built ws)(PORT_DIR ws @ ''/boards/ribbit'' \<mapsto> Symlink (ws @ ''/board'')))
     (firmware_dir ws)"
    by (simp add: built_def path_defs free_or_dir_def)
  have "((built ws)(PORT_DIR ws @ ''/boards/ribbit'' \<mapsto> Symlink (ws @ ''/board'')))
      (firmware_dir ws @ p) = None" for p
    by (simp add: built_def path_defs)
  then show "\<forall>s\<in>set (artifacts ws).
     free_or_file ((built ws)(PORT_DIR ws @ ''/boards/ribbit'' \<mapsto> Symlink (ws @ ''/board'')))
       (entry (firmware_dir ws) s)"
    by (simp add: entry_def free_or_file_def)
  show "map ((built ws)(PORT_DIR ws @ ''/boards/ribbit'' \<mapsto> Symlink (ws @ ''/board'')))
     (artifacts ws) = [Some (File [1]), Some (File [2]), Some (File [3]), Some (File [4])]"
    by (simp add: built_def artifacts_def path_defs)
qed

lemma build_sample: "failed (build obliging sample_toolchain ws (\<lambda>p. None)) = None"
proof -
  have "failed (build obliging sample_toolchain ws (\<lambda>p. None))
      = failed (run_recipe obliging sample_toolchain (bundle_lines (artifacts ws) (firmware_dir ws))
          ((built ws)(PORT_DIR ws @ ''/boards/ribbit'' \<mapsto> Symlink (ws @ ''/board''))))"
    by (rule build_empty(1)) (rule sample_leaves)
  with bundle_firmware_obliging [OF built_linked(1,2,3), where tc = sample_toolchain]
  show ?thesis by simp
qed

lemma partial_leaves:
  "partial_toolchain (PORT_DIR ws) vars
     ((\<lambda>p. None)(PORT_DIR ws @ ''/boards/ribbit'' \<mapsto> Symlink (ws @ ''/board'')))
   = (0, (\<lambda>p. None)(PORT_DIR ws @ ''/boards/ribbit'' \<mapsto> Symlink (ws @ ''/board''),
         PORT_DIR ws @ ''/build-ribbit/bootloader/bootloader.bin'' \<mapsto> File [1],
         PORT_DIR ws @ ''/build-ribbit/partition_table/partition-table.bin'' \<mapsto> File [2],
         PORT_DIR ws @ ''/build-ribbit/ota_data_initial.bin'' \<mapsto> File [3]))"
  by (simp add: partial_toolchain_def)

lemma partial_started:
  "(Cp (artifacts ws) (firmware_dir ws), partial_tree ws)
     \<in> set (started (build obliging partial_toolchain ws (\<lambda>p. None)))"
proof -
  let ?h = "(\<lambda>p. None)(PORT_DIR ws @ ''/boards/ribbit'' \<mapsto> Symlink (ws @ ''/board''),
         PORT_DIR ws @ ''/build-ribbit/bootloader/bootloader.bin'' \<mapsto> File [1],
         PORT_DIR ws @ ''/build-ribbit/partition_table/partition-table.bin'' \<mapsto> File [2],
         PORT_DIR ws @ ''/build-ribbit/ota_data_initial.bin'' \<mapsto> File [3])"
  have "?h (firmware_dir ws) = None" by (simp add: path_defs)
  from bundle_started [where h = ?h and d = "firmware_dir ws" and srcs = "artifacts ws"
      and tc = partial_toolchain, OF this]
  have "(Cp (artifacts ws) (firmware_dir ws), partial_tree ws)
      \<in> set (started (run_recipe obliging partial_toolchain
            (bundle_lines (artifacts ws) (firmware_dir ws)) ?h))"
    by (simp only: partial_tree_def)
  moreover have "set (started (run_recipe obliging partial_toolchain
            (bundle_lines (artifacts ws) (firmware_dir ws)) ?h))
      \<subseteq> set (started (build obliging partial_toolchain ws (\<lambda>p. None)))"
    by (rule build_empty(3)) (rule partial_leaves)
  ultimately show ?thesis by blast
qed

lemma partial_tree_image: "partial_tree ws (BUILD_DIR ws @ ''/micropython.bin'') = None"
  by (simp add: partial_tree_def path_defs)

lemma partial_tree_entry: "partial_tree ws (firmware_dir ws @ ''/micropython.bin'') = None"
  by (simp add: partial_tree_def path_defs)

lemma image_artifact: "BUILD_DIR ws @ ''/micropython.bin'' \<in> set (artifacts ws)"
  by (simp add: artifacts_def)

theorem build_checks_presence_witness:
  "failed (build obliging sample_toolchain ''/app'' (\<lambda>p. None)) = None \<and>
   list_all (\<lambda>a. (\<exists>b. stat (final (build obliging sample_toolchain ''/app'' (\<lambda>p. None))) a = Some (File b)) \<and>
      (\<exists>b. stat (final (build obliging sample_toolchain ''/app'' (\<lambda>p. None)))
              (entry (firmware_dir ''/app'') a) = Some (File b)))
     (artifacts ''/app'') \<and>
   (Cp (artifacts ''/app'') (firmware_dir ''/app''), partial_tree ''/app'')
     \<in> set (started (build obliging partial_toolchain ''/app'' (\<lambda>p. None))) \<and>
   BUILD_DIR ''/app'' @ ''/micropython.bin'' \<in> set (artifacts ''/app'') \<and>
   partial_tree ''/app'' (BUILD_DIR ''/app'' @ ''/micropython.bin'') = None \<and>
   failed (build obliging partial_toolchain ''/app'' (\<lambda>p. None)) \<noteq> None"
proof -
  note ok = build_sample [of "''/app''"]
  note m = partial_started [of "''/app''"]
  note a = image_artifact [of "''/app''"]
  note n = partial_tree_image [of "''/app''"]
  from build_checks_presence [of obliging sample_toolchain "''/app''" "\<lambda>p. None"] ok
  have 1: "list_all (\<lambda>a. (\<exists>b. stat (final (build obliging sample_toolchain ''/app'' (\<lambda>p. None))) a = Some (File b)) \<and>
      (\<exists>b. stat (final (build obliging sample_toolchain ''/app'' (\<lambda>p. None)))
              (entry (firmware_dir ''/app'') a) = Some (File b)))
     (artifacts ''/app'')"
    by blast
  from build_checks_presence [of obliging partial_toolchain "''/app''" "\<lambda>p. None" "partial_tree ''/app''"
      "BUILD_DIR ''/app'' @ ''/micropython.bin''"] m a n
  have 2: "failed (build obliging partial_toolchain ''/app'' (\<lambda>p. None)) \<noteq> None" by blast
  from ok 1 m a n 2 show ?thesis by blast
qed

lemma hollow_leaves:
  "hollow_toolchain (PORT_DIR ws) vars
     ((\<lambda>p. None)(PORT_DIR ws @ ''/boards/ribbit'' \<mapsto> Symlink (ws @ ''/board'')))
   = (0, (built ws)(PORT_DIR ws @ ''/boards/ribbit'' \<mapsto> Symlink (ws @ ''/board''),
                    BUILD_DIR ws @ ''/micropython.bin'' \<mapsto> File []))"
  by (simp add: hollow_toolchain_def built_def path_defs fun_eq_iff)

text \<open>
  Claim C4 as it is stated fails: with a toolchain that exits zero and leaves an empty
  application image the build succeeds, and the image in the firmware directory is
  empty.
\<close>

theorem build_accepts_empty_image:
  "failed (build obliging hollow_toolchain ''/app'' (\<lambda>p. None)) = None \<and>
   final (build obliging hollow_toolchain ''/app'' (\<lambda>p. None)) (firmware_dir ''/app'' @ ''/micropython.bin'')
     = Some (File [])"
proof -
  let ?h = "(built ''/app'')(PORT_DIR ''/app'' @ ''/boards/ribbit'' \<mapsto> Symlink (''/app'' @ ''/board''),
                    BUILD_DIR ''/app'' @ ''/micropython.bin'' \<mapsto> File [])"
  have f: "failed (build obliging hollow_toolchain ''/app'' (\<lambda>p. None))
      = failed (run_recipe obliging hollow_toolchain
          (bundle_lines (artifacts ''/app'') (firmware_dir ''/app'')) ?h)"
    by (rule build_empty(1)) (rule hollow_leaves)
  have g: "final (build obliging hollow_toolchain ''/app'' (\<lambda>p. None))
      = final (run_recipe obliging hollow_toolchain
          (bundle_lines (artifacts ''/app'') (firmware_dir ''/app'')) ?h)"
    by (rule build_empty(2)) (rule hollow_leaves)
  have 1: "\<forall>s\<in>set (artifacts ''/app''). is_file ?h s"
    by (simp add: built_def artifacts_def path_defs is_file_def)
  have 2: "free_or_dir ?h (firmware_dir ''/app'')"
    by (simp add: built_def path_defs free_or_dir_def)
  have "?h (firmware_dir ''/app'' @ p) = None" for p
    by (simp add: built_def path_defs)
  then have 3: "\<forall>s\<in>set (artifacts ''/app''). free_or_file ?h (entry (firmware_dir ''/app'') s)"
    by (simp add: entry_def free_or_file_def)
  let ?r = "run_recipe obliging hollow_toolchain (bundle_lines (artifacts ''/app'') (firmware_dir ''/app'')) ?h"
  note B = bundle_firmware_obliging [OF 1 2 3, where tc = hollow_toolchain]
  from B have a: "failed ?r = None" by blast
  from B have "map (final ?r)
      [firmware_dir ''/app'' @ ''/bootloader.bin'', firmware_dir ''/app'' @ ''/partition-table.bin'',
       firmware_dir ''/app'' @ ''/ota_data_initial.bin'', firmware_dir ''/app'' @ ''/micropython.bin'']
      = map ?h (artifacts ''/app'')" by blast
  then have "final ?r (firmware_dir ''/app'' @ ''/micropython.bin'')
      = ?h (BUILD_DIR ''/app'' @ ''/micropython.bin'')"
    by (simp add: artifacts_def)
  also have "\<dots> = Some (File [])" by simp
  finally show ?thesis using a unfolding f g by blast
qed

section \<open>A build without the application image\<close>

text \<open>
  While a source is missing its entry stays free, when no other source shares its name.
\<close>

lemma copies_keep_entry_free:
  assumes "f src = None" and "f p = None"
    and "\<forall>s\<in>set srcs. entry d s \<noteq> src"
    and "\<forall>s\<in>set srcs. entry d s = p \<longrightarrow> s = src"
  shows "snd (foldl (\<lambda>acc s. cp_one sys d s acc) (ds, f) srcs) p = None"
  using assms
proof (induction srcs arbitrary: ds f)
  case Nil
  then show ?case by simp
next
  case (Cons a srcs)
  obtain ds1 f1 where r: "cp_one sys d a (ds, f) = (ds1, f1)" by (cases "cp_one sys d a (ds, f)")
  have src: "f1 src = None"
    using cp_one_keeps_free [of f src d a sys ds] Cons.prems(1,3) r by auto
  have "f1 p = None"
  proof (cases "a = src")
    case True
    with Cons.prems(1) r have "f1 = f" by (simp add: cp_one_missing stat_None)
    with Cons.prems(2) show ?thesis by simp
  next
    case False
    with Cons.prems(4) have "p \<noteq> entry d a" by auto
    from cp_one_keeps_free [where f = f and p = p and d = d and s = a and ds = ds and sys = sys,
        OF Cons.prems(2) this] r
    show ?thesis by simp
  qed
  from Cons.IH [of f1 ds1, OF src this] Cons.prems(3,4) r show ?case by simp
qed

lemma image_entry_only:
  "\<forall>s\<in>set (artifacts ws).
     entry (firmware_dir ws) s = firmware_dir ws @ ''/micropython.bin''
       \<longrightarrow> s = BUILD_DIR ws @ ''/micropython.bin''"
proof -
  have "map (entry (firmware_dir ws)) (artifacts ws) =
     [firmware_dir ws @ ''/bootloader.bin'', firmware_dir ws @ ''/partition-table.bin'',
      firmware_dir ws @ ''/ota_data_initial.bin'', firmware_dir ws @ ''/micropython.bin'']"
    by (rule entries_artifacts)
  then show ?thesis by (simp add: artifacts_def)
qed

lemma run_steps_failed:
  "run_steps ext ws r ss False w = \<lparr>succeeded = False, world_after = w, executed = []\<rparr>"
  by (induction ss) simp_all

lemma run_build_step:
  "run_step ext ws build_step w =
     (if refuses (ext_system ext) (files w)
           (Unlink_tree (in_workspace ws ''./vendor/micropython/mpy-cross/build''))
      then (False, w)
      else
        (failed (build (ext_system ext) (ext_toolchain ext) ws
           (rm_rf (in_workspace ws ''./vendor/micropython/mpy-cross/build'') (files w))) = None,
         w\<lparr>files := final (build (ext_system ext) (ext_toolchain ext) ws
           (rm_rf (in_workspace ws ''./vendor/micropython/mpy-cross/build'') (files w)))\<rparr>))"
  by (simp add: run_step_def build_step_def Let_def split: bool.splits)

lemma steps_from_build:
  "drop 3 steps = [build_step, upload_main_step, upload_release_step, artifacts_step]"
  by (simp add: steps_def)

text \<open>When the Build step fails, the job fails and runs no step after it.\<close>

lemma job_after_failed_build:
  assumes "failed (build (ext_system ext) (ext_toolchain ext) ws
        (rm_rf (in_workspace ws ''./vendor/micropython/mpy-cross/build'') (files w))) \<noteq> None"
  shows "\<not> succeeded (run_steps ext ws r (drop 3 steps) True w) \<and>
         executed (run_steps ext ws r (drop 3 steps) True w) = [build_step] \<and>
         remote (world_after (run_steps ext ws r (drop 3 steps) True w)) = remote w"
proof -
  let ?b = "build (ext_system ext) (ext_toolchain ext) ws
        (rm_rf (in_workspace ws ''./vendor/micropython/mpy-cross/build'') (files w))"
  from assms obtain e where e: "failed ?b = Some e" by auto
  have "\<exists>w'. run_step ext ws build_step w = (False, w') \<and> remote w' = remote w"
    by (simp add: run_build_step e)
  then obtain w' where st: "run_step ext ws build_step w = (False, w')"
    and rw: "remote w' = remote w" by blast
  have h: "holds (step_if build_step) r" by (simp add: build_step_def)
  have "run_steps ext ws r (drop 3 steps) True w
      = \<lparr>succeeded = False, world_after = w', executed = [build_step]\<rparr>"
    unfolding steps_from_build by (simp add: st h run_steps_failed)
  then show ?thesis using rw by simp
qed

text \<open>
  Claim C6, as the recipe has it. When the copies of a build start with nothing at the
  path of the application image, \<open>cp\<close> fails and its diagnostics name the missing file;
  an entry for the image that was free before stays free; and in the job the Build
  step fails, so that the job fails, no later step is executed and the remote service
  gets no call.
\<close>

theorem build_without_image:
  assumes "(Cp (artifacts ws) (firmware_dir ws), g) \<in> set (started (build sys tc ws f))"
    and "g (BUILD_DIR ws @ ''/micropython.bin'') = None"
  shows "(\<exists>ds. failed (build sys tc ws f) = Some (Cp (artifacts ws) (firmware_dir ws), ds) \<and>
            No_such_file (BUILD_DIR ws @ ''/micropython.bin'') \<in> set ds) \<and>
         (g (firmware_dir ws @ ''/micropython.bin'') = None \<longrightarrow>
            final (build sys tc ws f) (firmware_dir ws @ ''/micropython.bin'') = None) \<and>
         (ext_system ext = sys \<and> ext_toolchain ext = tc \<and>
          rm_rf (in_workspace ws ''./vendor/micropython/mpy-cross/build'') (files w) = f \<longrightarrow>
            \<not> succeeded (run_steps ext ws r (drop 3 steps) True w) \<and>
            executed (run_steps ext ws r (drop 3 steps) True w) = [build_step] \<and>
            remote (world_after (run_steps ext ws r (drop 3 steps) True w)) = remote w)"
proof -
  let ?img = "BUILD_DIR ws @ ''/micropython.bin''"
  let ?F = "foldl (\<lambda>acc s. cp_one sys (firmware_dir ws) s acc) ([], g) (artifacts ws)"
  have img: "?img \<in> set (artifacts ws)" by (simp add: artifacts_def)
  have ne: "\<forall>s\<in>set (artifacts ws). entry (firmware_dir ws) s \<noteq> ?img"
    using firmware_entries_no_artifact [of ws] img by auto
  from copies_report_missing [where f = g and src = ?img and srcs = "artifacts ws"
      and d = "firmware_dir ws" and ds = "[]" and sys = sys, OF assms(2) img ne]
  have named: "No_such_file ?img \<in> set (fst ?F)" .
  then have "fst ?F \<noteq> []" by auto
  with build_at_cp(1) [OF assms(1)]
  have fl: "failed (build sys tc ws f) = Some (Cp (artifacts ws) (firmware_dir ws), fst ?F)" by simp
  have 1: "\<exists>ds. failed (build sys tc ws f) = Some (Cp (artifacts ws) (firmware_dir ws), ds) \<and>
            No_such_file ?img \<in> set ds"
    using fl named by blast
  have 2: "final (build sys tc ws f) (firmware_dir ws @ ''/micropython.bin'') = None"
    if "g (firmware_dir ws @ ''/micropython.bin'') = None"
    unfolding build_at_cp(2) [OF assms(1)]
    by (rule copies_keep_entry_free [OF assms(2) that ne image_entry_only])
  have 3: "\<not> succeeded (run_steps ext ws r (drop 3 steps) True w) \<and>
            executed (run_steps ext ws r (drop 3 steps) True w) = [build_step] \<and>
            remote (world_after (run_steps ext ws r (drop 3 steps) True w)) = remote w"
    if "ext_system ext = sys \<and> ext_toolchain ext = tc \<and>
          rm_rf (in_workspace ws ''./vendor/micropython/mpy-cross/build'') (files w) = f"
  proof (rule job_after_failed_build)
    show "failed (build (ext_system ext) (ext_toolchain ext) ws
        (rm_rf (in_workspace ws ''./vendor/micropython/mpy-cross/build'') (files w))) \<noteq> None"
      using that fl by simp
  qed
  from 1 2 3 show ?thesis by blast
qed

lemma rm_rf_empty: "rm_rf p (\<lambda>p. None) = (\<lambda>p. None)"
  by (simp add: rm_rf_def fun_eq_iff)

theorem build_without_image_witness:
  "(Cp (artifacts ''/app'') (firmware_dir ''/app''), partial_tree ''/app'')
     \<in> set (started (build obliging partial_toolchain ''/app'' (\<lambda>p. None))) \<and>
   partial_tree ''/app'' (BUILD_DIR ''/app'' @ ''/micropython.bin'') = None \<and>
   (\<exists>ds. failed (build obliging partial_toolchain ''/app'' (\<lambda>p. None))
            = Some (Cp (artifacts ''/app'') (firmware_dir ''/app''), ds) \<and>
          No_such_file (BUILD_DIR ''/app'' @ ''/micropython.bin'') \<in> set ds) \<and>
   partial_tree ''/app'' (firmware_dir ''/app'' @ ''/micropython.bin'') = None \<and>
   final (build obliging partial_toolchain ''/app'' (\<lambda>p. None)) (firmware_dir ''/app'' @ ''/micropython.bin'')
     = None \<and>
   ext_system partial_ext = obliging \<and>
   ext_toolchain partial_ext = partial_toolchain \<and>
   rm_rf (in_workspace ''/app'' ''./vendor/micropython/mpy-cross/build'') (files empty_world)
     = (\<lambda>p. None) \<and>
   \<not> succeeded (run_steps partial_ext ''/app'' ''refs/heads/main'' (drop 3 steps) True empty_world) \<and>
   executed (run_steps partial_ext ''/app'' ''refs/heads/main'' (drop 3 steps) True empty_world)
     = [build_step] \<and>
   remote (world_after
     (run_steps partial_ext ''/app'' ''refs/heads/main'' (drop 3 steps) True empty_world)) = []"
proof -
  note m = partial_started [of "''/app''"]
  note n = partial_tree_image [of "''/app''"]
  note e = partial_tree_entry [of "''/app''"]
  have y: "ext_system partial_ext = obliging" by (simp add: partial_ext_def sample_ext_def)
  have t: "ext_toolchain partial_ext = partial_toolchain" by (simp add: partial_ext_def)
  have c: "rm_rf (in_workspace ''/app'' ''./vendor/micropython/mpy-cross/build'') (files empty_world)
     = (\<lambda>p. None)"
    by (simp add: empty_world_def rm_rf_empty)
  have r: "remote empty_world = []" by (simp add: empty_world_def)
  note T = build_without_image [OF m n, of partial_ext empty_world "''refs/heads/main''"]
  from T y t c have "remote (world_after
     (run_steps partial_ext ''/app'' ''refs/heads/main'' (drop 3 steps) True empty_world))
       = remote empty_world" by blast
  then have r': "remote (world_after
     (run_steps partial_ext ''/app'' ''refs/heads/main'' (drop 3 steps) True empty_world)) = []"
    by (simp only: r)
  from T m n e y t c r' show ?thesis by blast
qed

text \<open>Copies whose last source is missing, the others being plain.\<close>

lemma copies_last_missing:
  assumes "\<forall>s\<in>set xs. is_file f s"
    and "\<forall>s\<in>set xs. free_or_file f (entry d s)"
    and "distinct (map (entry d) xs)"
    and "\<forall>s\<in>set xs. entry d s \<notin> set xs"
    and "f src = None"
    and "src \<notin> entry d ` set xs"
  shows "fst (foldl (\<lambda>acc s. cp_one obliging d s acc) ([], f) (xs @ [src])) = [No_such_file src] \<and>
         (\<forall>s\<in>set xs. snd (foldl (\<lambda>acc s. cp_one obliging d s acc) ([], f) (xs @ [src])) (entry d s) = f s) \<and>
         (\<forall>p. p \<notin> entry d ` set xs \<longrightarrow>
            snd (foldl (\<lambda>acc s. cp_one obliging d s acc) ([], f) (xs @ [src])) p = f p)"
proof -
  let ?F = "foldl (\<lambda>acc s. cp_one obliging d s acc) ([], f) xs"
  have q: "fst ?F = []" by (rule copies_obliging [OF assms(1-4)])
  note P = copies_plain [OF q assms(1) plain_obliging [OF assms(2)] assms(3,4)]
  from P assms(5,6) have "snd ?F src = None" by auto
  then have "stat (snd ?F) src = None" by (rule stat_None)
  then have "cp_one obliging d src ([], snd ?F) = ([No_such_file src], snd ?F)"
    using cp_one_missing [of "snd ?F" src obliging d "[]"] by simp
  moreover have "?F = ([], snd ?F)" using q by (simp add: prod_eq_iff)
  ultimately have "foldl (\<lambda>acc s. cp_one obliging d s acc) ([], f) (xs @ [src])
      = ([No_such_file src], snd ?F)"
    by simp
  with P show ?thesis by simp
qed

lemma stale_partial_facts:
  "stale_partial ws (firmware_dir ws) = Some Dir"
  "stale_partial ws (BUILD_DIR ws @ ''/micropython.bin'') = None"
  "map (stale_partial ws) (butlast (artifacts ws)) = [Some (File [1]), Some (File [2]), Some (File [3])]"
  "map (stale_partial ws) (map (entry (firmware_dir ws)) (artifacts ws))
     = [Some (File [9]), Some (File [9]), Some (File [9]), Some (File [9])]"
proof -
  show "stale_partial ws (firmware_dir ws) = Some Dir"
    by (simp add: stale_partial_def stale_def built_def path_defs)
  show "stale_partial ws (BUILD_DIR ws @ ''/micropython.bin'') = None"
    by (simp add: stale_partial_def)
  show "map (stale_partial ws) (butlast (artifacts ws))
      = [Some (File [1]), Some (File [2]), Some (File [3])]"
    by (simp add: stale_partial_def stale_def built_def artifacts_def path_defs)
  show "map (stale_partial ws) (map (entry (firmware_dir ws)) (artifacts ws))
     = [Some (File [9]), Some (File [9]), Some (File [9]), Some (File [9])]"
    unfolding entries_artifacts
    by (simp add: stale_partial_def stale_def path_defs)
qed

lemma bundle_stale_partial:
  "failed (run_recipe obliging tc (bundle_lines (artifacts ws) (firmware_dir ws)) (stale_partial ws))
     = Some (Cp (artifacts ws) (firmware_dir ws), [No_such_file (BUILD_DIR ws @ ''/micropython.bin'')]) \<and>
   map (final (run_recipe obliging tc (bundle_lines (artifacts ws) (firmware_dir ws)) (stale_partial ws)))
     (map (entry (firmware_dir ws)) (artifacts ws))
     = [Some (File [1]), Some (File [2]), Some (File [3]), Some (File [9])]"
proof -
  let ?f = "stale_partial ws"
  let ?d = "firmware_dir ws"
  let ?xs = "butlast (artifacts ws)"
  let ?img = "BUILD_DIR ws @ ''/micropython.bin''"
  let ?r = "run_recipe obliging tc (bundle_lines (artifacts ws) ?d) ?f"
  let ?F = "foldl (\<lambda>acc s. cp_one obliging ?d s acc) ([], ?f) (artifacts ws)"
  have split: "artifacts ws = ?xs @ [?img]" by (simp add: artifacts_def)
  have sub: "set ?xs \<subseteq> set (artifacts ws)" by (simp add: artifacts_def)
  have img: "?img \<in> set (artifacts ws)" by (simp add: artifacts_def)
  have "free_or_dir ?f ?d" by (simp add: free_or_dir_def stale_partial_facts(1))
  from bundle_unfold [OF this, of tc "artifacts ws"] stale_partial_facts(1) [of ws]
  have fl: "failed ?r = (if fst ?F = [] then None else Some (Cp (artifacts ws) ?d, fst ?F))"
    and fn: "final ?r = snd ?F"
    by auto
  have 1: "\<forall>s\<in>set ?xs. is_file ?f s"
    using stale_partial_facts(3) [of ws] by (simp add: artifacts_def is_file_def)
  have 2: "\<forall>s\<in>set ?xs. free_or_file ?f (entry ?d s)"
    using stale_partial_facts(4) [of ws] by (simp add: artifacts_def free_or_file_def)
  have "distinct (map (entry ?d) (?xs @ [?img]))"
    using entries_artifacts_distinct [of ?d ws] by (simp only: split [symmetric])
  then have 3: "distinct (map (entry ?d) ?xs)" and out: "entry ?d ?img \<notin> entry ?d ` set ?xs"
    by auto
  have 4: "\<forall>s\<in>set ?xs. entry ?d s \<notin> set ?xs"
    using firmware_entries_no_artifact [of ws] sub by auto
  have 5: "?img \<notin> entry ?d ` set ?xs"
    using firmware_entries_no_artifact [of ws] sub img by auto
  note L = copies_last_missing [OF 1 2 3 4 stale_partial_facts(2) 5]
  have L': "fst ?F = [No_such_file ?img] \<and>
      (\<forall>s\<in>set ?xs. snd ?F (entry ?d s) = ?f s) \<and>
      (\<forall>p. p \<notin> entry ?d ` set ?xs \<longrightarrow> snd ?F p = ?f p)"
    using L unfolding split [symmetric] by blast
  from L' have a: "fst ?F = [No_such_file ?img]" by blast
  from L' have b: "\<forall>s\<in>set ?xs. snd ?F (entry ?d s) = ?f s" by blast
  from L' out have c: "snd ?F (entry ?d ?img) = ?f (entry ?d ?img)" by blast
  have "map (final ?r) (map (entry ?d) (?xs @ [?img]))
      = map ?f ?xs @ [?f (entry ?d ?img)]"
    unfolding fn using b c by simp
  also have "\<dots> = [Some (File [1]), Some (File [2]), Some (File [3]), Some (File [9])]"
    using stale_partial_facts(3,4) [of ws] by (simp add: artifacts_def)
  finally have "map (final ?r) (map (entry ?d) (artifacts ws))
      = [Some (File [1]), Some (File [2]), Some (File [3]), Some (File [9])]"
    by (simp only: split [symmetric])
  moreover from fl a have "failed ?r = Some (Cp (artifacts ws) ?d, [No_such_file ?img])" by simp
  ultimately show ?thesis by blast
qed

text \<open>
  Claim C6 as it is stated fails where the firmware directory holds an older bundle:
  bundling without the application image fails, and yet afterwards the directory holds
  all four images, the three new ones next to the older application image.
\<close>

theorem bundle_fails_yet_complete:
  "failed (run_recipe obliging sample_toolchain (bundle_lines (artifacts ''/app'') (firmware_dir ''/app''))
     (stale_partial ''/app''))
     = Some (Cp (artifacts ''/app'') (firmware_dir ''/app''),
         [No_such_file (BUILD_DIR ''/app'' @ ''/micropython.bin'')]) \<and>
   map (final (run_recipe obliging sample_toolchain (bundle_lines (artifacts ''/app'') (firmware_dir ''/app''))
     (stale_partial ''/app''))) (map (entry (firmware_dir ''/app'')) (artifacts ''/app''))
     = [Some (File [1]), Some (File [2]), Some (File [3]), Some (File [9])]"
  by (rule bundle_stale_partial)

section \<open>Properties of a run of the job\<close>

lemma executed_filter_le:
  "length (filter P (executed (run_steps ext ws r ss ok w)))
     \<le> length (filter (\<lambda>s. P s \<and> holds (step_if s) r) ss)"
proof (induction ss arbitrary: ok w)
  case Nil
  then show ?case by simp
next
  case (Cons s ss)
  show ?case
  proof (cases "ok \<and> holds (step_if s) r")
    case True
    obtain ok' w' where st: "run_step ext ws s w = (ok', w')" by (cases "run_step ext ws s w")
    from True st Cons.IH [of ok' w'] show ?thesis by (simp add: Let_def)
  next
    case False
    from False Cons.IH [of ok w] show ?thesis by (auto intro: le_SucI)
  qed
qed


lemma external_remote: "remote (snd (external ext cmd w)) = remote w"
  by (simp add: external_def split: prod.splits)

lemma run_line_remote:
  "l \<noteq> Python ''./tools/upload-to-golioth.py'' \<Longrightarrow>
   remote (snd (run_line ext ws env l w)) = remote w"
  by (cases l) (simp_all add: external_remote Let_def)








text \<open>
  Claim C10. The gates of the two upload steps hold of no common ref, so a run executes
  at most one upload step, although each gate is evaluated on its own.
\<close>

theorem upload_gates_disjoint:
  "\<not> (holds (step_if upload_main_step) r \<and> holds (step_if upload_release_step) r) \<and>
   length (filter is_golioth_upload (executed (run_job ext ws r w))) \<le> 1"
proof
  show "\<not> (holds (step_if upload_main_step) r \<and> holds (step_if upload_release_step) r)"
    using gates_exclusive [of r] by (simp add: upload_main_step_def upload_release_step_def)
  have "length (filter is_golioth_upload (executed (run_job ext ws r w)))
          \<le> length (filter (\<lambda>s. is_golioth_upload s \<and> holds (step_if s) r) steps)"
    unfolding run_job_def by (rule executed_filter_le)
  also have "\<dots> = length (selected r)" by (simp add: selected_def)
  also have "\<dots> \<le> 1" by (rule selected_length)
  finally show "length (filter is_golioth_upload (executed (run_job ext ws r w))) \<le> 1" .
qed

theorem upload_gates_disjoint_witness:
  "\<not> (holds (step_if upload_main_step) ''refs/heads/main'' \<and>
      holds (step_if upload_release_step) ''refs/heads/main'') \<and>
   length (filter is_golioth_upload
     (executed (run_job sample_ext ''/app'' ''refs/heads/main'' empty_world))) \<le> 1"
  by (rule upload_gates_disjoint)

section \<open>Rollouts\<close>

lemma rollouts_append: "rollouts (h @ h') = rollouts h + rollouts h'"
  by (simp add: rollouts_def)

lemma send_no_rollout: "\<not> is_rollout c \<Longrightarrow> rollouts (snd (send sv n c h)) = rollouts h"
proof (induction n arbitrary: h)
  case 0
  then show ?case by (simp add: rollouts_def)
next
  case (Suc n)
  have "rollouts (h @ [c]) = rollouts h" using Suc.prems by (simp add: rollouts_def)
  with Suc show ?case by (cases "sv h c") simp_all
qed

lemma send_once: "snd (send sv 0 c h) = h @ [c]"
  by simp

lemma upload_all_rollouts: "rollouts (snd (upload_all sv n bp bs h)) = rollouts h"
proof (induction bs arbitrary: h)
  case Nil
  then show ?case by simp
next
  case (Cons x bs)
  obtain a b where x: "x = (a, b)" by (cases x)
  obtain r h' where s: "send sv n (Upload_artifact bp a b) h = (r, h')"
    by (cases "send sv n (Upload_artifact bp a b) h")
  have "rollouts h' = rollouts h"
    using send_no_rollout [of "Upload_artifact bp a b" sv n h] s by (simp add: is_rollout_def)
  with Cons.IH [of h'] x s show ?case by (cases r) simp_all
qed

lemma filter_le: "(\<And>x. P x \<Longrightarrow> Q x) \<Longrightarrow> length (filter P xs) \<le> length (filter Q xs)"
  by (induction xs) auto

text \<open>
  One publication issues the rollout command at most once, and not at all for a target
  whose rollout flag is clear.
\<close>

lemma publish_rollouts:
  "rollouts (snd (publish sv n bs t key h)) \<le> rollouts h + 1 \<and>
   (\<not> rollout t \<longrightarrow> rollouts (snd (publish sv n bs t key h)) = rollouts h)"
proof -
  obtain r h1 where a: "send sv n (Authenticate (project t) key) h = (r, h1)"
    by (cases "send sv n (Authenticate (project t) key) h")
  have h1: "rollouts h1 = rollouts h"
    using send_no_rollout [of "Authenticate (project t) key" sv n h] a by (simp add: is_rollout_def)
  obtain e h2 where u: "upload_all sv n (blueprint t) bs h1 = (e, h2)"
    by (cases "upload_all sv n (blueprint t) bs h1")
  have h2: "rollouts h2 = rollouts h"
    using upload_all_rollouts [of sv n "blueprint t" bs h1] u h1 by simp
  have h3: "rollouts (h2 @ [Issue_rollout (blueprint t)]) = rollouts h + 1"
    using h2 by (simp add: rollouts_def is_rollout_def)
  show ?thesis
  proof (cases r)
    case Accepted
    with a u h2 h3 show ?thesis
      by (cases e) (simp_all add: publish_def)
  qed (use a h1 in \<open>simp_all add: publish_def\<close>)
qed

lemma upload_to_golioth_rollouts:
  "rollouts (remote (snd (upload_to_golioth ext ws env w))) \<le> rollouts (remote w) + 1"
proof (cases "read_bundle (files w) (firmware_dir ws) (map basename (artifacts ws))")
  case None
  then show ?thesis by (simp add: upload_to_golioth_def)
next
  case (Some bs)
  let ?t = "\<lparr>project = getenv env ''GOLIOTH_PROJECT'',
             blueprint = getenv env ''GOLIOTH_BLUEPRINT'',
             rollout = (getenv env ''GOLIOTH_ROLLOUT'' = ''true'')\<rparr>"
  let ?k = "getenv env ''GOLIOTH_API_KEY''"
  obtain e h where p: "publish (ext_service ext) (ext_retries ext) bs ?t ?k (remote w) = (e, h)"
    by (cases "publish (ext_service ext) (ext_retries ext) bs ?t ?k (remote w)")
  from publish_rollouts [of "ext_service ext" "ext_retries ext" bs ?t ?k "remote w"] p
  have "rollouts h \<le> rollouts (remote w) + 1" by simp
  with Some p show ?thesis by (simp add: upload_to_golioth_def)
qed

lemma run_line_rollouts:
  "rollouts (remote (snd (run_line ext ws env l w)))
     \<le> rollouts (remote w) + (if l = Python ''./tools/upload-to-golioth.py'' then 1 else 0)"
proof (cases "l = Python ''./tools/upload-to-golioth.py''")
  case True
  then show ?thesis using upload_to_golioth_rollouts [of ext ws env w] by simp
next
  case False
  then show ?thesis by (simp add: run_line_remote)
qed

lemma run_script_rollouts:
  "rollouts (remote (snd (run_script ext ws env ls w)))
     \<le> rollouts (remote w) + count_list ls (Python ''./tools/upload-to-golioth.py'')"
proof (induction ls arbitrary: w)
  case Nil
  then show ?case by simp
next
  case (Cons l ls)
  obtain ok w' where st: "run_line ext ws env l w = (ok, w')"
    by (cases "run_line ext ws env l w")
  from run_line_rollouts [of ext ws env l w] st
  have 1: "rollouts (remote w')
     \<le> rollouts (remote w) + (if l = Python ''./tools/upload-to-golioth.py'' then 1 else 0)"
    by simp
  show ?case
  proof (cases ok)
    case True
    from Cons.IH [of w'] 1 True st show ?thesis by (simp split: if_splits)
  next
    case False
    with 1 st show ?thesis by (simp split: if_splits)
  qed
qed

lemma run_step_rollouts:
  "rollouts (remote (snd (run_step ext ws s w))) \<le> rollouts (remote w) + tool_runs s"
  by (cases "step_action s")
    (simp_all add: run_step_def tool_runs_def external_remote run_script_rollouts)

lemma run_steps_rollouts:
  "rollouts (remote (world_after (run_steps ext ws r ss ok w)))
     \<le> rollouts (remote w) + sum_list (map tool_runs (executed (run_steps ext ws r ss ok w)))"
proof (induction ss arbitrary: ok w)
  case Nil
  then show ?case by simp
next
  case (Cons s ss)
  show ?case
  proof (cases "ok \<and> holds (step_if s) r")
    case True
    obtain ok' w' where st: "run_step ext ws s w = (ok', w')" by (cases "run_step ext ws s w")
    from run_step_rollouts [of ext ws s w] st
    have "rollouts (remote w') \<le> rollouts (remote w) + tool_runs s" by simp
    with Cons.IH [of ok' w'] True st show ?thesis by (simp add: Let_def)
  next
    case False
    with Cons.IH [of ok w] show ?thesis by auto
  qed
qed

lemma executed_runs_le:
  "sum_list (map tool_runs (executed (run_steps ext ws r ss ok w)))
     \<le> sum_list (map tool_runs (filter (\<lambda>s. holds (step_if s) r) ss))"
proof (induction ss arbitrary: ok w)
  case Nil
  then show ?case by simp
next
  case (Cons s ss)
  show ?case
  proof (cases "ok \<and> holds (step_if s) r")
    case True
    obtain ok' w' where st: "run_step ext ws s w = (ok', w')" by (cases "run_step ext ws s w")
    from Cons.IH [of ok' w'] True st show ?thesis by (simp add: Let_def)
  next
    case False
    from Cons.IH [of ok w] False show ?thesis by (auto intro: trans_le_add2)
  qed
qed

lemma steps_tool_runs: "sum_list (map tool_runs (filter (\<lambda>s. holds (step_if s) r) steps)) \<le> 1"
  using gates_exclusive [of r]
  by (auto simp: steps_def step_defs tool_runs_def)

text \<open>
  Claim C9. In one run of the job the upload tool is run at most once, so at most one
  publication is attempted and no target is published to twice; and the run adds at
  most one rollout command to the calls the remote service receives, whatever the
  service answers and however often other calls are retried. A second rollout takes a
  second run.
\<close>

theorem rollout_at_most_once:
  "sum_list (map tool_runs (executed (run_job ext ws r w))) \<le> 1 \<and>
   length (filter (\<lambda>s. is_golioth_upload s \<and> target_of s = t) (executed (run_job ext ws r w))) \<le> 1 \<and>
   rollouts (remote (world_after (run_job ext ws r w))) \<le> rollouts (remote w) + 1"
proof (intro conjI)
  have "sum_list (map tool_runs (executed (run_job ext ws r w)))
      \<le> sum_list (map tool_runs (filter (\<lambda>s. holds (step_if s) r) steps))"
    unfolding run_job_def by (rule executed_runs_le)
  also have "\<dots> \<le> 1" by (rule steps_tool_runs)
  finally show runs: "sum_list (map tool_runs (executed (run_job ext ws r w))) \<le> 1" .
  have "rollouts (remote (world_after (run_job ext ws r w)))
      \<le> rollouts (remote w) + sum_list (map tool_runs (executed (run_job ext ws r w)))"
    unfolding run_job_def by (rule run_steps_rollouts)
  with runs show "rollouts (remote (world_after (run_job ext ws r w))) \<le> rollouts (remote w) + 1"
    by simp
  have "length (filter (\<lambda>s. is_golioth_upload s \<and> target_of s = t) (executed (run_job ext ws r w)))
      \<le> length (filter (\<lambda>s. (is_golioth_upload s \<and> target_of s = t) \<and> holds (step_if s) r) steps)"
    unfolding run_job_def by (rule executed_filter_le)
  also have "\<dots> \<le> length (filter (\<lambda>s. is_golioth_upload s \<and> holds (step_if s) r) steps)"
    by (rule filter_le) simp
  also have "\<dots> = length (selected r)" by (simp add: selected_def)
  also have "\<dots> \<le> 1" by (rule selected_length)
  finally show "length (filter (\<lambda>s. is_golioth_upload s \<and> target_of s = t)
      (executed (run_job ext ws r w))) \<le> 1" .
qed

section \<open>The sample run\<close>

lemma external_sample: "external sample_ext cmd w = (True, w)"
  by (simp add: external_def sample_ext_def)

lemma plain_steps_sample:
  "run_step sample_ext ws checkout_step w = (True, w)"
  "run_step sample_ext ws submodules_step w = (True, w)"
  "run_step sample_ext ws test_step w = (True, w)"
  "run_step sample_ext ws artifacts_step w = (True, w)"
  by (simp_all add: run_step_def step_defs external_sample)

lemma plain_steps_hold:
  "holds (step_if checkout_step) r" "holds (step_if submodules_step) r"
  "holds (step_if test_step) r" "holds (step_if build_step) r"
  "holds (step_if artifacts_step) r"
  by (simp_all add: step_defs)

lemma build_step_sample:
  "run_step sample_ext ws build_step empty_world
     = (True, empty_world\<lparr>files := final (build obliging sample_toolchain ws (\<lambda>p. None))\<rparr>)"
  by (simp add: run_build_step sample_ext_def empty_world_def rm_rf_empty build_sample
      obliging_refuses)


text \<open>The firmware directory after the sample build holds the four images.\<close>

lemma build_sample_bundle:
  "read_bundle (final (build obliging sample_toolchain ws (\<lambda>p. None))) (firmware_dir ws)
     (map basename (artifacts ws))
   = Some [(''bootloader.bin'', [1]), (''partition-table.bin'', [2]),
           (''ota_data_initial.bin'', [3]), (''micropython.bin'', [4])]"
proof -
  let ?h = "(built ws)(PORT_DIR ws @ ''/boards/ribbit'' \<mapsto> Symlink (ws @ ''/board''))"
  let ?r = "run_recipe obliging sample_toolchain (bundle_lines (artifacts ws) (firmware_dir ws)) ?h"
  have fn: "final (build obliging sample_toolchain ws (\<lambda>p. None)) = final ?r"
    by (rule build_empty(2)) (rule sample_leaves)
  from bundle_firmware_obliging [OF built_linked(1,2,3), where tc = sample_toolchain]
  have "map (final ?r)
      [firmware_dir ws @ ''/bootloader.bin'', firmware_dir ws @ ''/partition-table.bin'',
       firmware_dir ws @ ''/ota_data_initial.bin'', firmware_dir ws @ ''/micropython.bin'']
      = map ?h (artifacts ws)" by blast
  then have "final ?r (firmware_dir ws @ ''/bootloader.bin'') = Some (File [1])"
    "final ?r (firmware_dir ws @ ''/partition-table.bin'') = Some (File [2])"
    "final ?r (firmware_dir ws @ ''/ota_data_initial.bin'') = Some (File [3])"
    "final ?r (firmware_dir ws @ ''/micropython.bin'') = Some (File [4])"
    by (simp_all only: built_linked(4) list.map list.inject)
  then have "stat (final ?r) (firmware_dir ws @ ''/'' @ ''bootloader.bin'') = Some (File [1])"
    "stat (final ?r) (firmware_dir ws @ ''/'' @ ''partition-table.bin'') = Some (File [2])"
    "stat (final ?r) (firmware_dir ws @ ''/'' @ ''ota_data_initial.bin'') = Some (File [3])"
    "stat (final ?r) (firmware_dir ws @ ''/'' @ ''micropython.bin'') = Some (File [4])"
    by (simp_all add: stat_File)
  then show ?thesis
    unfolding fn basename_artifacts by (simp only: read_bundle.simps option.case node.case)
qed

lemma send_accepted: "sv h c = Accepted \<Longrightarrow> send sv n c h = (Accepted, h @ [c])"
  by (cases n) simp_all

lemma upload_step_sample:
  "run_step sample_ext ws upload_main_step
     (empty_world\<lparr>files := final (build obliging sample_toolchain ws (\<lambda>p. None))\<rparr>)
   = (True, \<lparr>files = final (build obliging sample_toolchain ws (\<lambda>p. None)),
            remote = [Authenticate ''ribbit'' ''key'',
                      Upload_artifact beta_blueprint ''bootloader.bin'' [1],
                      Upload_artifact beta_blueprint ''partition-table.bin'' [2],
                      Upload_artifact beta_blueprint ''ota_data_initial.bin'' [3],
                      Upload_artifact beta_blueprint ''micropython.bin'' [4],
                      Issue_rollout beta_blueprint]\<rparr>)"
  by (simp add: run_step_def upload_main_step_def upload_to_golioth_def build_sample_bundle
      empty_world_def environ_def getenv_def publish_def sample_ext_def send_accepted)

lemma sample_job_main:
  "run_job sample_ext ws ''refs/heads/main'' empty_world =
     \<lparr>succeeded = True,
      world_after = \<lparr>files = final (build obliging sample_toolchain ws (\<lambda>p. None)),
            remote = [Authenticate ''ribbit'' ''key'',
                      Upload_artifact beta_blueprint ''bootloader.bin'' [1],
                      Upload_artifact beta_blueprint ''partition-table.bin'' [2],
                      Upload_artifact beta_blueprint ''ota_data_initial.bin'' [3],
                      Upload_artifact beta_blueprint ''micropython.bin'' [4],
                      Issue_rollout beta_blueprint]\<rparr>,
      executed = [checkout_step, submodules_step, test_step, build_step, upload_main_step,
                  artifacts_step]\<rparr>"
proof -
  have m: "holds (step_if upload_main_step) ''refs/heads/main''"
    by (simp add: upload_main_step_def str_eq_def)
  have t: "\<not> holds (step_if upload_release_step) ''refs/heads/main''"
    by (simp add: upload_release_step_def startsWith_def fold_case_def to_lower_def)
  show ?thesis
    by (simp add: run_job_def steps_def plain_steps_sample plain_steps_hold build_step_sample
        upload_step_sample m t)
qed


theorem rollout_at_most_once_witness:
  "sum_list (map tool_runs (executed (run_job sample_ext ''/app'' ''refs/heads/main'' empty_world))) \<le> 1 \<and>
   length (filter (\<lambda>s. is_golioth_upload s \<and> target_of s = beta_target)
     (executed (run_job sample_ext ''/app'' ''refs/heads/main'' empty_world))) \<le> 1 \<and>
   rollouts (remote (world_after (run_job sample_ext ''/app'' ''refs/heads/main'' empty_world)))
     \<le> rollouts (remote empty_world) + 1 \<and>
   rollouts (remote (world_after (run_job sample_ext ''/app'' ''refs/heads/main'' empty_world))) = 1 \<and>
   publish deaf_service 3 [(''micropython.bin'', [4])] beta_target ''key'' []
     = (Some Transport,
        [Authenticate ''ribbit'' ''key'', Upload_artifact beta_blueprint ''micropython.bin'' [4],
         Issue_rollout beta_blueprint])"
proof -
  note T = rollout_at_most_once [of sample_ext "''/app''" "''refs/heads/main''" empty_world beta_target]
  have one: "rollouts (remote (world_after (run_job sample_ext ''/app'' ''refs/heads/main'' empty_world))) = 1"
    by (simp add: sample_job_main rollouts_def is_rollout_def)
  have deaf: "publish deaf_service 3 [(''micropython.bin'', [4])] beta_target ''key'' []
     = (Some Transport,
        [Authenticate ''ribbit'' ''key'', Upload_artifact beta_blueprint ''micropython.bin'' [4],
         Issue_rollout beta_blueprint])"
    by (simp add: publish_def deaf_service_def is_rollout_def beta_target_def send_accepted)
  from T one deaf show ?thesis by blast
qed

end
